theory Spec2Isabelle
  imports Main
begin

section \<open>Data model of atomic\_ptr.h\<close>

text \<open>
  Pointers are addresses, \<open>0\<close> being the null pointer: block pointers
  (\<open>atomic_ptr_ref<T> *\<close>), payload pointers (\<open>T *\<close>) and the pool hook
  (\<open>pool_put_t\<close>, a function pointer).  The counters are \<open>long\<close> in the source;
  they are modelled as mathematical integers: signed overflow is undefined in C++, and
  reaching it needs more shares on one block than a \<open>long\<close> can count.
\<close>

type_synonym addr = nat

text \<open>\<open>struct refcount { long ecount; long rcount; }\<close>\<close>

record refcount =
  ecount :: int
  rcount :: int

text \<open>\<open>template<typename T> struct ref { long ecount; atomic_ptr_ref<T> *ptr; }\<close>:
  the pair an \<open>atomic_ptr\<close> holds in its member \<open>xxx\<close>.\<close>

record ref =
  ref_ecount :: int
  ref_ptr :: addr

text \<open>\<open>class atomic_ptr_ref\<close>: the reference counts, the payload pointer, the pool
  hook and the link field.\<close>

record atomic_ptr_ref =
  count :: refcount
  ptr :: addr
  pool :: nat
  next_ref :: addr

text \<open>\<open>class local_ptr\<close> has the single member \<open>refptr\<close>, \<open>class atomic_ptr\<close> the
  single member \<open>xxx\<close>.\<close>

record local_ptr =
  refptr :: addr

record atomic_ptr =
  xxx :: ref

type_synonym heap = "addr \<Rightarrow> atomic_ptr_ref option"

text \<open>What a member access through a block pointer can do wrong, and what the
  destructors make visible outside the library.\<close>

datatype fault = NullDeref | Dangling

datatype event = PayloadDeleted addr | BlockFreed addr | PoolPut nat addr

definition deref :: "heap \<Rightarrow> addr \<Rightarrow> fault + atomic_ptr_ref" where
  "deref h a = (if a = 0 then Inl NullDeref
                else case h a of None \<Rightarrow> Inl Dangling | Some b \<Rightarrow> Inr b)"

section \<open>The platform primitives\<close>

text \<open>The result of a compare-and-swap: whether it succeeded, the shared pair
  afterwards, and its second argument afterwards.\<close>

record 'a cas_result =
  cas_ok :: bool
  cas_dest :: 'a
  cas_old :: 'a

text \<open>
  Modelled from the spec: \<open>atomic_cas\<close>, \<open>atomic_cas_rel\<close> and
  \<open>atomic_cas_sync\<close> of \<open>atomix.h\<close>, which is not among the sources.  The spec
  names them a wide compare-and-swap over a pair; the loops of the source never re-read
  the shared pair themselves, so a failed compare-and-swap must leave the current value
  in its second argument.  The three differ in memory ordering only.
\<close>

definition atomic_cas :: "'a \<Rightarrow> 'a \<Rightarrow> 'a \<Rightarrow> 'a cas_result" where
  "atomic_cas dest old new =
     (if dest = old then \<lparr>cas_ok = True, cas_dest = new, cas_old = old\<rparr>
      else \<lparr>cas_ok = False, cas_dest = dest, cas_old = dest\<rparr>)"

text \<open>
  Other threads: the list holds the values the shared pair has at the successive accesses
  of the running operation; once the list is used up the pair stays as it is.
\<close>

definition observe :: "'a \<Rightarrow> 'a list \<Rightarrow> 'a \<times> 'a list" where
  "observe cur env = (case env of [] \<Rightarrow> (cur, []) | v # env' \<Rightarrow> (v, env'))"

section \<open>atomic\_ptr\_ref\<close>

text \<open>\<open>atomic_ptr_ref(T * p = 0)\<close>\<close>

definition atomic_ptr_ref_ctor :: "addr \<Rightarrow> atomic_ptr_ref" where
  "atomic_ptr_ref_ctor p =
     \<lparr>count = \<lparr>ecount = 0, rcount = 1\<rparr>, ptr = p, pool = 0, next_ref = 0\<rparr>"

text \<open>\<open>delete refptr\<close>: \<open>~atomic_ptr_ref() { delete ptr; }\<close> runs the payload's
  destructor (deleting a null pointer does nothing), then the block is freed.\<close>

definition delete_ref :: "addr \<Rightarrow> atomic_ptr_ref \<Rightarrow> heap \<Rightarrow> heap \<times> event list" where
  "delete_ref a b h =
     (h(a := None), (if ptr b \<noteq> 0 then [PayloadDeleted (ptr b)] else []) @ [BlockFreed a])"

text \<open>The \<open>do ... while (atomic_cas_sync(&count, &oldval, &newval) == 0)\<close> loop of
  \<open>adjust\<close> and its return value.  The result is the shared pair after the successful
  compare-and-swap and the \<open>int\<close> returned.\<close>

function adjust_loop :: "refcount \<Rightarrow> refcount \<Rightarrow> int \<Rightarrow> int \<Rightarrow> refcount list \<Rightarrow> refcount \<times> int" where
  "adjust_loop cnt oldval xephemeralCount xreferenceCount env =
     (let newval = \<lparr>ecount = ecount oldval + xephemeralCount,
                    rcount = rcount oldval + xreferenceCount\<rparr>;
          r = atomic_cas cnt oldval newval
      in if cas_ok r
         then (cas_dest r, if ecount newval = 0 \<and> rcount newval = 0 then 0 else 1)
         else (case env of
                 [] \<Rightarrow> adjust_loop (cas_dest r) (cas_old r) xephemeralCount xreferenceCount []
               | c # env' \<Rightarrow> adjust_loop c (cas_old r) xephemeralCount xreferenceCount env'))"
  by pat_completeness auto
termination
  by (relation "measure (\<lambda>(cnt, oldval, xe, xr, env).
                  2 * length env + (if cnt = oldval then 0 else 1))")
     (auto simp: atomic_cas_def split: if_splits)

text \<open>\<open>int adjust(long xephemeralCount, long xreferenceCount)\<close> on the block at
  \<open>this\<close>.  The two fields of \<open>oldval\<close> are read one after the other.\<close>

definition adjust :: "addr \<Rightarrow> int \<Rightarrow> int \<Rightarrow> refcount list \<Rightarrow> heap \<Rightarrow> fault + heap \<times> int" where
  "adjust this xephemeralCount xreferenceCount env h =
     (case deref h this of
        Inl f \<Rightarrow> Inl f
      | Inr b \<Rightarrow>
          let e0 = ecount (count b);
              (c1, env1) = observe (count b) env;
              r0 = rcount c1;
              (c2, env2) = observe c1 env1;
              (c', rc) = adjust_loop c2 \<lparr>ecount = e0, rcount = r0\<rparr>
                           xephemeralCount xreferenceCount env2
          in Inr (h(this \<mapsto> b\<lparr>count := c'\<rparr>), rc))"

section \<open>atomic\_ptr: the loops over the pair \<open>xxx\<close>\<close>

text \<open>The loop of \<open>getrefptr\<close>; the result is the shared pair after the successful
  compare-and-swap, and \<open>oldval\<close>.\<close>

function getrefptr_loop :: "ref \<Rightarrow> ref \<Rightarrow> ref list \<Rightarrow> ref \<times> ref" where
  "getrefptr_loop x oldval env =
     (let newval = \<lparr>ref_ecount = ref_ecount oldval + 1, ref_ptr = ref_ptr oldval\<rparr>;
          r = atomic_cas x oldval newval
      in if cas_ok r then (cas_dest r, cas_old r)
         else (case env of
                 [] \<Rightarrow> getrefptr_loop (cas_dest r) (cas_old r) []
               | v # env' \<Rightarrow> getrefptr_loop v (cas_old r) env'))"
  by pat_completeness auto
termination
  by (relation "measure (\<lambda>(x, oldval, env).
                  2 * length env + (if x = oldval then 0 else 1))")
     (auto simp: atomic_cas_def split: if_splits)

text \<open>\<open>atomic_ptr_ref<T> * getrefptr()\<close>\<close>

definition getrefptr :: "atomic_ptr \<Rightarrow> ref list \<Rightarrow> atomic_ptr \<times> addr" where
  "getrefptr this env =
     (let e0 = ref_ecount (xxx this);
          (x1, env1) = observe (xxx this) env;
          p0 = ref_ptr x1;
          (x2, env2) = observe x1 env1;
          (x', oldval) = getrefptr_loop x2 \<lparr>ref_ecount = e0, ref_ptr = p0\<rparr> env2
      in (\<lparr>xxx = x'\<rparr>, ref_ptr oldval))"

text \<open>The loop \<open>while(atomic_cas_rel(&xxx, &temp, &obj.xxx) == 0);\<close> of \<open>swap\<close>; the
  result is the shared pair afterwards, and \<open>temp\<close>.\<close>

function swap_loop :: "ref \<Rightarrow> ref \<Rightarrow> ref \<Rightarrow> ref list \<Rightarrow> ref \<times> ref" where
  "swap_loop x temp objx env =
     (let r = atomic_cas x temp objx
      in if cas_ok r then (cas_dest r, cas_old r)
         else (case env of
                 [] \<Rightarrow> swap_loop (cas_dest r) (cas_old r) objx []
               | v # env' \<Rightarrow> swap_loop v (cas_old r) objx env'))"
  by pat_completeness auto
termination
  by (relation "measure (\<lambda>(x, temp, objx, env).
                  2 * length env + (if x = temp then 0 else 1))")
     (auto simp: atomic_cas_def split: if_splits)

text \<open>\<open>void swap(atomic_ptr<T> & obj)\<close>; \<open>obj\<close> is local to the caller.\<close>

definition swap :: "atomic_ptr \<Rightarrow> atomic_ptr \<Rightarrow> ref list \<Rightarrow> atomic_ptr \<times> atomic_ptr" where
  "swap this obj env =
     (let e0 = ref_ecount (xxx this);
          (x1, env1) = observe (xxx this) env;
          p0 = ref_ptr x1;
          (x2, env2) = observe x1 env1;
          (x', temp) = swap_loop x2 \<lparr>ref_ecount = e0, ref_ptr = p0\<rparr> (xxx obj) env2
      in (\<lparr>xxx = x'\<rparr>, \<lparr>xxx = \<lparr>ref_ecount = ref_ecount temp, ref_ptr = ref_ptr temp\<rparr>\<rparr>))"

text \<open>The \<open>do ... while (cmp.refptr == temp.ptr)\<close> loop of \<open>cas\<close>.  The result is
  \<open>rc\<close>, the shared pair afterwards, \<open>xchg.xxx\<close> afterwards, and (for the statements
  below, not a value of the source) the pair the last compare-and-swap found in the
  slot.\<close>

function cas_loop :: "ref \<Rightarrow> ref \<Rightarrow> addr \<Rightarrow> ref \<Rightarrow> ref list \<Rightarrow> bool \<times> ref \<times> ref \<times> ref" where
  "cas_loop x temp cmp_refptr xchgx env =
     (let r = atomic_cas x temp xchgx
      in if cas_ok r then (True, cas_dest r, cas_old r, x)
         else if cmp_refptr = ref_ptr (cas_old r)
         then (case env of
                 [] \<Rightarrow> cas_loop (cas_dest r) (cas_old r) cmp_refptr xchgx []
               | v # env' \<Rightarrow> cas_loop v (cas_old r) cmp_refptr xchgx env')
         else (False, cas_dest r, xchgx, x))"
  by pat_completeness auto
termination
  by (relation "measure (\<lambda>(x, temp, c, xchgx, env).
                  2 * length env + (if x = temp then 0 else 1))")
     (auto simp: atomic_cas_def split: if_splits)

text \<open>\<open>bool cas(local_ptr<T> cmp, atomic_ptr<T> xchg)\<close>: the body, on the parameter
  objects \<open>cmp\<close> and \<open>xchg\<close> (the caller's arguments are copied into them and they are
  destructed on return).\<close>

definition cas :: "atomic_ptr \<Rightarrow> local_ptr \<Rightarrow> atomic_ptr \<Rightarrow> ref list \<Rightarrow> bool \<times> atomic_ptr \<times> atomic_ptr \<times> ref" where
  "cas this cmp xchg env =
     (let temp = \<lparr>ref_ecount = ref_ecount (xxx this), ref_ptr = refptr cmp\<rparr>;
          (x1, env1) = observe (xxx this) env;
          (rc, x', xchgx', seen) = cas_loop x1 temp (refptr cmp) (xxx xchg) env1
      in (rc, \<lparr>xxx = x'\<rparr>, \<lparr>xxx = xchgx'\<rparr>, seen))"

section \<open>Releasing a block\<close>

text \<open>The body both destructors run once \<open>adjust\<close> has returned 0:
  \<open>if (refptr->pool == 0) delete refptr; else refptr->pool(refptr);\<close>.  A call of the
  pool hook is recorded as an event; the hook is the user's.\<close>

definition destroy_or_recycle :: "addr \<Rightarrow> heap \<Rightarrow> fault + heap \<times> event list" where
  "destroy_or_recycle a h =
     (case deref h a of
        Inl f \<Rightarrow> Inl f
      | Inr b \<Rightarrow> if pool b = 0 then Inr (delete_ref a b h)
                else Inr (h, [PoolPut (pool b) a]))"

section \<open>local\_ptr\<close>

text \<open>\<open>local_ptr(T * obj = 0)\<close>; \<open>a\<close> is the storage \<open>new\<close> returns.\<close>

definition local_ptr_obj :: "addr \<Rightarrow> addr \<Rightarrow> heap \<Rightarrow> heap \<times> local_ptr" where
  "local_ptr_obj a obj h =
     (if obj \<noteq> 0
      then let b0 = atomic_ptr_ref_ctor obj;
               b1 = b0\<lparr>count := (count b0)\<lparr>ecount := 1\<rparr>\<rparr>;
               b2 = b1\<lparr>count := (count b1)\<lparr>rcount := 0\<rparr>\<rparr>
           in (h(a \<mapsto> b2), \<lparr>refptr = a\<rparr>)
      else (h, \<lparr>refptr = 0\<rparr>))"

text \<open>\<open>local_ptr(const local_ptr<T> & src)\<close>\<close>

definition local_ptr_copy :: "local_ptr \<Rightarrow> refcount list \<Rightarrow> heap \<Rightarrow> fault + heap \<times> local_ptr" where
  "local_ptr_copy src env h =
     (if refptr src \<noteq> 0
      then (case adjust (refptr src) 1 0 env h of
              Inl f \<Rightarrow> Inl f
            | Inr (h', rc) \<Rightarrow> Inr (h', \<lparr>refptr = refptr src\<rparr>))
      else Inr (h, \<lparr>refptr = refptr src\<rparr>))"

text \<open>\<open>local_ptr(atomic_ptr<T> & src) { refptr = src.getrefptr(); }\<close>\<close>

definition local_ptr_atomic :: "atomic_ptr \<Rightarrow> ref list \<Rightarrow> atomic_ptr \<times> local_ptr" where
  "local_ptr_atomic src env = (let (src', p) = getrefptr src env in (src', \<lparr>refptr = p\<rparr>))"

text \<open>\<open>local_ptr(atomic_ptr_ref<T> * src)\<close>, the recycled ref object.\<close>

definition local_ptr_recycled :: "addr \<Rightarrow> heap \<Rightarrow> fault + heap \<times> local_ptr" where
  "local_ptr_recycled src h =
     (if src \<noteq> 0
      then (case deref h src of
              Inl f \<Rightarrow> Inl f
            | Inr b \<Rightarrow>
                let b1 = b\<lparr>count := (count b)\<lparr>ecount := 1\<rparr>\<rparr>;
                    b2 = b1\<lparr>count := (count b1)\<lparr>rcount := 0\<rparr>\<rparr>
                in Inr (h(src \<mapsto> b2), \<lparr>refptr = src\<rparr>))
      else Inr (h, \<lparr>refptr = src\<rparr>))"

text \<open>\<open>~local_ptr()\<close>\<close>

definition local_ptr_dtor :: "local_ptr \<Rightarrow> refcount list \<Rightarrow> heap \<Rightarrow> fault + heap \<times> event list" where
  "local_ptr_dtor this env h =
     (if refptr this \<noteq> 0
      then (case adjust (refptr this) (- 1) 0 env h of
              Inl f \<Rightarrow> Inl f
            | Inr (h', rc) \<Rightarrow>
                if rc = 0 then destroy_or_recycle (refptr this) h' else Inr (h', []))
      else Inr (h, []))"

text \<open>\<open>T * get()\<close>, \<open>operator ->\<close> and \<open>operator *\<close>.  The last applies \<open>*\<close> to
  what \<open>get\<close> returns; on a null pointer that is undefined, here the fault
  \<open>NullDeref\<close>.\<close>

definition get :: "local_ptr \<Rightarrow> heap \<Rightarrow> fault + addr" where
  "get this h =
     (if refptr this \<noteq> 0
      then (case deref h (refptr this) of Inl f \<Rightarrow> Inl f | Inr b \<Rightarrow> Inr (ptr b))
      else Inr 0)"

definition op_arrow :: "local_ptr \<Rightarrow> heap \<Rightarrow> fault + addr" where
  "op_arrow this h = get this h"

definition op_star :: "local_ptr \<Rightarrow> heap \<Rightarrow> fault + addr" where
  "op_star this h =
     (case get this h of
        Inl f \<Rightarrow> Inl f
      | Inr p \<Rightarrow> if p = 0 then Inl NullDeref else Inr p)"

text \<open>\<open>void setPool(pool_put_t pool)\<close> and \<open>pool_put_t getPool()\<close>\<close>

definition setPool :: "local_ptr \<Rightarrow> nat \<Rightarrow> heap \<Rightarrow> fault + heap" where
  "setPool this pool' h =
     (case deref h (refptr this) of
        Inl f \<Rightarrow> Inl f
      | Inr b \<Rightarrow> Inr (h(refptr this \<mapsto> b\<lparr>pool := pool'\<rparr>)))"

definition getPool :: "local_ptr \<Rightarrow> heap \<Rightarrow> fault + nat" where
  "getPool this h =
     (case deref h (refptr this) of Inl f \<Rightarrow> Inl f | Inr b \<Rightarrow> Inr (pool b))"

text \<open>\<open>inline void swap(local_ptr & other)\<close>, the non-atomic swap.\<close>

definition local_ptr_swap :: "local_ptr \<Rightarrow> local_ptr \<Rightarrow> local_ptr \<times> local_ptr" where
  "local_ptr_swap this other =
     (let temp = refptr this in (\<lparr>refptr = refptr other\<rparr>, \<lparr>refptr = temp\<rparr>))"

section \<open>atomic\_ptr\<close>

text \<open>\<open>atomic_ptr(T * obj = 0)\<close>; \<open>a\<close> is the storage \<open>new\<close> returns.\<close>

definition atomic_ptr_obj :: "addr \<Rightarrow> addr \<Rightarrow> heap \<Rightarrow> heap \<times> atomic_ptr" where
  "atomic_ptr_obj a obj h =
     (if obj \<noteq> 0
      then (h(a \<mapsto> atomic_ptr_ref_ctor obj), \<lparr>xxx = \<lparr>ref_ecount = 0, ref_ptr = a\<rparr>\<rparr>)
      else (h, \<lparr>xxx = \<lparr>ref_ecount = 0, ref_ptr = 0\<rparr>\<rparr>))"

text \<open>\<open>atomic_ptr(local_ptr<T> & src)\<close>\<close>

definition atomic_ptr_local :: "local_ptr \<Rightarrow> refcount list \<Rightarrow> heap \<Rightarrow> fault + heap \<times> atomic_ptr" where
  "atomic_ptr_local src env h =
     (if refptr src \<noteq> 0
      then (case adjust (refptr src) 0 1 env h of
              Inl f \<Rightarrow> Inl f
            | Inr (h', rc) \<Rightarrow> Inr (h', \<lparr>xxx = \<lparr>ref_ecount = 0, ref_ptr = refptr src\<rparr>\<rparr>))
      else Inr (h, \<lparr>xxx = \<lparr>ref_ecount = 0, ref_ptr = refptr src\<rparr>\<rparr>))"

text \<open>\<open>atomic_ptr(atomic_ptr<T> & src)\<close>: \<open>atomic_ptr_adjust_link\<close> is the part after
  \<open>src.getrefptr()\<close> has returned \<open>p\<close> (the comment of the source: adjust link
  count).\<close>

definition atomic_ptr_adjust_link :: "addr \<Rightarrow> refcount list \<Rightarrow> heap \<Rightarrow> fault + heap \<times> atomic_ptr" where
  "atomic_ptr_adjust_link p env h =
     (if p \<noteq> 0
      then (case adjust p (- 1) 1 env h of
              Inl f \<Rightarrow> Inl f
            | Inr (h', rc) \<Rightarrow> Inr (h', \<lparr>xxx = \<lparr>ref_ecount = 0, ref_ptr = p\<rparr>\<rparr>))
      else Inr (h, \<lparr>xxx = \<lparr>ref_ecount = 0, ref_ptr = p\<rparr>\<rparr>))"

definition atomic_ptr_copy :: "atomic_ptr \<Rightarrow> ref list \<Rightarrow> refcount list \<Rightarrow> heap \<Rightarrow> fault + heap \<times> atomic_ptr \<times> atomic_ptr" where
  "atomic_ptr_copy src env env' h =
     (let (src', p) = getrefptr src env
      in case atomic_ptr_adjust_link p env' h of
           Inl f \<Rightarrow> Inl f
         | Inr (h', this) \<Rightarrow> Inr (h', src', this))"

text \<open>\<open>atomic_ptr(atomic_ptr_ref<T> * src)\<close>, the recycled ref object.\<close>

definition atomic_ptr_recycled :: "addr \<Rightarrow> heap \<Rightarrow> fault + heap \<times> atomic_ptr" where
  "atomic_ptr_recycled src h =
     (if src \<noteq> 0
      then (case deref h src of
              Inl f \<Rightarrow> Inl f
            | Inr b \<Rightarrow>
                let b1 = b\<lparr>count := (count b)\<lparr>ecount := 0\<rparr>\<rparr>;
                    b2 = b1\<lparr>count := (count b1)\<lparr>rcount := 1\<rparr>\<rparr>
                in Inr (h(src \<mapsto> b2), \<lparr>xxx = \<lparr>ref_ecount = 0, ref_ptr = src\<rparr>\<rparr>))
      else Inr (h, \<lparr>xxx = \<lparr>ref_ecount = 0, ref_ptr = src\<rparr>\<rparr>))"

text \<open>\<open>~atomic_ptr()\<close>\<close>

definition atomic_ptr_dtor :: "atomic_ptr \<Rightarrow> refcount list \<Rightarrow> heap \<Rightarrow> fault + heap \<times> event list" where
  "atomic_ptr_dtor this env h =
     (if ref_ptr (xxx this) \<noteq> 0
      then (case adjust (ref_ptr (xxx this)) (ref_ecount (xxx this)) (- 1) env h of
              Inl f \<Rightarrow> Inl f
            | Inr (h', rc) \<Rightarrow>
                if rc = 0 then destroy_or_recycle (ref_ptr (xxx this)) h' else Inr (h', []))
      else Inr (h, []))"

section \<open>Programs: sequences of operations on shared objects\<close>

text \<open>
  The objects of a program: the blocks, the \<open>local_ptr\<close> and \<open>atomic_ptr\<close> objects
  (by index; \<open>None\<close> once destructed), the events so far, and the blocks that were
  handed to a pool hook and not installed again.
\<close>

record world =
  blocks :: heap
  locals :: "local_ptr option list"
  atomics :: "atomic_ptr option list"
  trace :: "event list"
  pooled :: "addr set"

definition world0 :: world where
  "world0 = \<lparr>blocks = (\<lambda>a. None), locals = [], atomics = [], trace = [], pooled = {}\<rparr>"

definition local_at :: "world \<Rightarrow> nat \<Rightarrow> local_ptr option" where
  "local_at w i = (if i < length (locals w) then locals w ! i else None)"

definition atomic_at :: "world \<Rightarrow> nat \<Rightarrow> atomic_ptr option" where
  "atomic_at w j = (if j < length (atomics w) then atomics w ! j else None)"

fun pool_puts :: "event list \<Rightarrow> addr set" where
  "pool_puts [] = {}"
| "pool_puts (PoolPut k a # evs) = insert a (pool_puts evs)"
| "pool_puts (e # evs) = pool_puts evs"

text \<open>The blocks an event list destroys or recycles, in order.\<close>

fun released :: "event list \<Rightarrow> addr list" where
  "released [] = []"
| "released (BlockFreed a # evs) = a # released evs"
| "released (PoolPut k a # evs) = a # released evs"
| "released (PayloadDeleted p # evs) = released evs"

text \<open>
  The steps of a program.  Threads interleave between steps.  A step is one function of
  the source, run with no other thread inside its compare-and-swap loop: each function
  changes shared data by one successful compare-and-swap, on a value the shared pair had
  at that moment (the lemmas \<open>adjust_result\<close>, \<open>getrefptr_result\<close>, \<open>swap_result\<close> and
  \<open>cas_result\<close> below), and a destructor whose \<open>adjust\<close> returned 0 is alone with the
  block.  The copy constructor \<open>atomic_ptr(atomic_ptr<T> &)\<close> changes shared data twice
  and is the two steps \<open>LocalAtomic\<close> (its \<open>getrefptr\<close>; the pointer returned is kept
  among the \<open>local_ptr\<close> objects of the model) and \<open>AtomicAdjustLink\<close>.  An
  assignment is a constructor, a swap and a destructor; a comparison of an \<open>atomic_ptr\<close>
  is a \<open>local_ptr\<close> constructed from it and destructed; a call of \<open>cas\<close> copies its
  arguments, runs \<open>Cas\<close> and destructs the copies.

  \<^item> \<open>LocalObj a obj\<close>: \<open>local_ptr(T * obj)\<close>, with \<open>new\<close> returning \<open>a\<close>;
  \<^item> \<open>LocalCopy i\<close>: \<open>local_ptr(const local_ptr<T> &)\<close> from the \<open>local_ptr\<close> \<open>i\<close>;
  \<^item> \<open>LocalAtomic j\<close>: \<open>local_ptr(atomic_ptr<T> &)\<close> from the \<open>atomic_ptr\<close> \<open>j\<close>;
  \<^item> \<open>LocalRecycled src\<close>: \<open>local_ptr(atomic_ptr_ref<T> *)\<close>;
  \<^item> \<open>LocalDtor i\<close>: \<open>~local_ptr()\<close>;
  \<^item> \<open>LocalSwap i k\<close>: \<open>local_ptr::swap\<close>;
  \<^item> \<open>SetPool i pool\<close>: \<open>setPool\<close>;
  \<^item> \<open>AtomicObj a obj\<close>: \<open>atomic_ptr(T * obj)\<close>, with \<open>new\<close> returning \<open>a\<close>;
  \<^item> \<open>AtomicLocal i\<close>: \<open>atomic_ptr(local_ptr<T> &)\<close>;
  \<^item> \<open>AtomicAdjustLink i\<close>: the rest of \<open>atomic_ptr(atomic_ptr<T> &)\<close>, on the pointer
    its \<open>getrefptr\<close> returned;
  \<^item> \<open>AtomicRecycled src\<close>: \<open>atomic_ptr(atomic_ptr_ref<T> *)\<close>;
  \<^item> \<open>AtomicDtor j\<close>: \<open>~atomic_ptr()\<close>;
  \<^item> \<open>AtomicSwap j k\<close>: \<open>atomic_ptr::swap\<close>, \<open>k\<close> being the caller's own object;
  \<^item> \<open>Cas j i k\<close>: the body of \<open>cas\<close> on the \<open>atomic_ptr\<close> \<open>j\<close>, with the parameter
    objects \<open>cmp\<close> at \<open>i\<close> and \<open>xchg\<close> at \<open>k\<close>.
\<close>

datatype op =
    LocalObj addr addr
  | LocalCopy nat
  | LocalAtomic nat
  | LocalRecycled addr
  | LocalDtor nat
  | LocalSwap nat nat
  | SetPool nat nat
  | AtomicObj addr addr
  | AtomicLocal nat
  | AtomicAdjustLink nat
  | AtomicRecycled addr
  | AtomicDtor nat
  | AtomicSwap nat nat
  | Cas nat nat nat

text \<open>
  \<open>None\<close>: the step is not one a program can take (no such object; \<open>new\<close> returning
  storage in use; a block given to a recycling constructor that no pool hook holds; a swap
  of an object with itself).  \<open>Some (Inl f)\<close>: the step is a fault of the program.  A block
  handed to a pool hook stays allocated, and the hook keeps it until it is given to a
  recycling constructor.
\<close>

definition step :: "op \<Rightarrow> world \<Rightarrow> (fault + world) option" where
  "step o' w =
     (case o' of
        LocalObj a obj \<Rightarrow>
          if obj \<noteq> 0 \<and> (a = 0 \<or> blocks w a \<noteq> None) then None
          else (let (h', p) = local_ptr_obj a obj (blocks w)
                in Some (Inr (w\<lparr>blocks := h', locals := locals w @ [Some p]\<rparr>)))
      | LocalCopy i \<Rightarrow>
          (case local_at w i of
             None \<Rightarrow> None
           | Some src \<Rightarrow>
               (case local_ptr_copy src [] (blocks w) of
                  Inl f \<Rightarrow> Some (Inl f)
                | Inr (h', p) \<Rightarrow>
                    Some (Inr (w\<lparr>blocks := h', locals := locals w @ [Some p]\<rparr>))))
      | LocalAtomic j \<Rightarrow>
          (case atomic_at w j of
             None \<Rightarrow> None
           | Some src \<Rightarrow>
               (let (src', p) = local_ptr_atomic src []
                in Some (Inr (w\<lparr>atomics := (atomics w)[j := Some src'],
                                locals := locals w @ [Some p]\<rparr>))))
      | LocalRecycled src \<Rightarrow>
          if src \<noteq> 0 \<and> src \<notin> pooled w then None
          else (case local_ptr_recycled src (blocks w) of
                  Inl f \<Rightarrow> Some (Inl f)
                | Inr (h', p) \<Rightarrow>
                    Some (Inr (w\<lparr>blocks := h', locals := locals w @ [Some p],
                                 pooled := pooled w - {src}\<rparr>)))
      | LocalDtor i \<Rightarrow>
          (case local_at w i of
             None \<Rightarrow> None
           | Some this \<Rightarrow>
               (case local_ptr_dtor this [] (blocks w) of
                  Inl f \<Rightarrow> Some (Inl f)
                | Inr (h', evs) \<Rightarrow>
                    Some (Inr (w\<lparr>blocks := h', locals := (locals w)[i := None],
                                 trace := trace w @ evs,
                                 pooled := pooled w \<union> pool_puts evs\<rparr>))))
      | LocalSwap i k \<Rightarrow>
          (case (local_at w i, local_at w k) of
             (Some this, Some other) \<Rightarrow>
               (let (this', other') = local_ptr_swap this other
                in Some (Inr (w\<lparr>locals := (locals w)[i := Some this', k := Some other']\<rparr>)))
           | _ \<Rightarrow> None)
      | SetPool i pool' \<Rightarrow>
          (case local_at w i of
             None \<Rightarrow> None
           | Some this \<Rightarrow>
               (case setPool this pool' (blocks w) of
                  Inl f \<Rightarrow> Some (Inl f)
                | Inr h' \<Rightarrow> Some (Inr (w\<lparr>blocks := h'\<rparr>))))
      | AtomicObj a obj \<Rightarrow>
          if obj \<noteq> 0 \<and> (a = 0 \<or> blocks w a \<noteq> None) then None
          else (let (h', s) = atomic_ptr_obj a obj (blocks w)
                in Some (Inr (w\<lparr>blocks := h', atomics := atomics w @ [Some s]\<rparr>)))
      | AtomicLocal i \<Rightarrow>
          (case local_at w i of
             None \<Rightarrow> None
           | Some src \<Rightarrow>
               (case atomic_ptr_local src [] (blocks w) of
                  Inl f \<Rightarrow> Some (Inl f)
                | Inr (h', s) \<Rightarrow>
                    Some (Inr (w\<lparr>blocks := h', atomics := atomics w @ [Some s]\<rparr>))))
      | AtomicAdjustLink i \<Rightarrow>
          (case local_at w i of
             None \<Rightarrow> None
           | Some p \<Rightarrow>
               (case atomic_ptr_adjust_link (refptr p) [] (blocks w) of
                  Inl f \<Rightarrow> Some (Inl f)
                | Inr (h', s) \<Rightarrow>
                    Some (Inr (w\<lparr>blocks := h', locals := (locals w)[i := None],
                                 atomics := atomics w @ [Some s]\<rparr>))))
      | AtomicRecycled src \<Rightarrow>
          if src \<noteq> 0 \<and> src \<notin> pooled w then None
          else (case atomic_ptr_recycled src (blocks w) of
                  Inl f \<Rightarrow> Some (Inl f)
                | Inr (h', s) \<Rightarrow>
                    Some (Inr (w\<lparr>blocks := h', atomics := atomics w @ [Some s],
                                 pooled := pooled w - {src}\<rparr>)))
      | AtomicDtor j \<Rightarrow>
          (case atomic_at w j of
             None \<Rightarrow> None
           | Some this \<Rightarrow>
               (case atomic_ptr_dtor this [] (blocks w) of
                  Inl f \<Rightarrow> Some (Inl f)
                | Inr (h', evs) \<Rightarrow>
                    Some (Inr (w\<lparr>blocks := h', atomics := (atomics w)[j := None],
                                 trace := trace w @ evs,
                                 pooled := pooled w \<union> pool_puts evs\<rparr>))))
      | AtomicSwap j k \<Rightarrow>
          (case (atomic_at w j, atomic_at w k) of
             (Some this, Some obj) \<Rightarrow>
               if j = k then None
               else (let (this', obj') = swap this obj []
                     in Some (Inr (w\<lparr>atomics := (atomics w)[j := Some this', k := Some obj']\<rparr>)))
           | _ \<Rightarrow> None)
      | Cas j i k \<Rightarrow>
          (case (atomic_at w j, local_at w i, atomic_at w k) of
             (Some this, Some cmp, Some xchg) \<Rightarrow>
               if j = k then None
               else (let (rc, this', xchg', seen) = cas this cmp xchg []
                     in Some (Inr (w\<lparr>atomics := (atomics w)[j := Some this', k := Some xchg']\<rparr>)))
           | _ \<Rightarrow> None))"

fun run :: "op list \<Rightarrow> world \<Rightarrow> (fault + world) option" where
  "run [] w = Some (Inr w)"
| "run (o' # os) w =
     (case step o' w of
        None \<Rightarrow> None
      | Some (Inl f) \<Rightarrow> Some (Inl f)
      | Some (Inr w') \<Rightarrow> run os w')"

text \<open>
  The accounting of the shares of the block at \<open>a\<close>: the \<open>local_ptr\<close> objects that
  point to it, the \<open>atomic_ptr\<close> objects that point to it, and the sum of the ephemeral
  counts those hold in \<open>xxx.ecount\<close>.
\<close>

definition tally :: "('a \<Rightarrow> int) \<Rightarrow> 'a option list \<Rightarrow> int" where
  "tally f xs = sum_list (map (\<lambda>x. case x of None \<Rightarrow> 0 | Some y \<Rightarrow> f y) xs)"

definition nlocals :: "world \<Rightarrow> addr \<Rightarrow> int" where
  "nlocals w a = tally (\<lambda>p. if refptr p = a then 1 else 0) (locals w)"

definition natomics :: "world \<Rightarrow> addr \<Rightarrow> int" where
  "natomics w a = tally (\<lambda>s. if ref_ptr (xxx s) = a then 1 else 0) (atomics w)"

definition eph_out :: "world \<Rightarrow> addr \<Rightarrow> int" where
  "eph_out w a = tally (\<lambda>s. if ref_ptr (xxx s) = a then ref_ecount (xxx s) else 0) (atomics w)"

definition zero_pair :: "refcount \<Rightarrow> bool" where
  "zero_pair c = (ecount c = 0 \<and> rcount c = 0)"

text \<open>A block is live while it is allocated and no pool hook holds it.\<close>

definition live :: "world \<Rightarrow> addr \<Rightarrow> bool" where
  "live w a = (blocks w a \<noteq> None \<and> a \<notin> pooled w)"

text \<open>The shares of the block at \<open>a\<close> are accounted for: its reference count is the
  number of \<open>atomic_ptr\<close> objects on it, its ephemeral count together with what those
  hold in \<open>xxx.ecount\<close> is the number of \<open>local_ptr\<close> objects on it, and a pool hook
  holds it exactly when it is allocated with the pair (0,0).\<close>

definition accounted_at :: "world \<Rightarrow> addr \<Rightarrow> bool" where
  "accounted_at w a =
     (case blocks w a of
        None \<Rightarrow> nlocals w a = 0 \<and> natomics w a = 0 \<and> a \<notin> pooled w
      | Some b \<Rightarrow> rcount (count b) = natomics w a \<and>
                 ecount (count b) + eph_out w a = nlocals w a \<and>
                 (a \<in> pooled w) = zero_pair (count b))"

definition accounted :: "world \<Rightarrow> bool" where
  "accounted w = (blocks w 0 = None \<and> (\<forall>a. a \<noteq> 0 \<longrightarrow> accounted_at w a))"

section \<open>Lemmas\<close>

subsection \<open>The loops\<close>

declare adjust_loop.simps [simp del] getrefptr_loop.simps [simp del] swap_loop.simps [simp del] cas_loop.simps [simp del]

lemma adjust_loop_hit:
  "adjust_loop c c xe xr env =
     (\<lparr>ecount = ecount c + xe, rcount = rcount c + xr\<rparr>,
      if ecount c + xe = 0 \<and> rcount c + xr = 0 then 0 else 1)"
  by (subst adjust_loop.simps) (simp add: atomic_cas_def Let_def)

lemma adjust_loop_result:
  "\<exists>c \<in> set (cnt # env). adjust_loop cnt oldval xe xr env =
     (\<lparr>ecount = ecount c + xe, rcount = rcount c + xr\<rparr>,
      if ecount c + xe = 0 \<and> rcount c + xr = 0 then 0 else 1)"
proof (induction cnt oldval xe xr env rule: adjust_loop.induct)
  case (1 cnt oldval xe xr env)
  show ?case
  proof (cases "cnt = oldval")
    case True
    then show ?thesis using adjust_loop_hit [of cnt xe xr env] by auto
  next
    case False
    show ?thesis
    proof (cases env)
      case Nil
      with False show ?thesis
        by (subst adjust_loop.simps) (simp add: atomic_cas_def Let_def adjust_loop_hit)
    next
      case (Cons v env')
      with False 1(2)[OF refl refl _ Cons] show ?thesis
        by (subst adjust_loop.simps) (simp add: atomic_cas_def Let_def)
    qed
  qed
qed

lemma getrefptr_loop_hit:
  "getrefptr_loop x x env = (\<lparr>ref_ecount = ref_ecount x + 1, ref_ptr = ref_ptr x\<rparr>, x)"
  by (subst getrefptr_loop.simps) (simp add: atomic_cas_def Let_def)

lemma getrefptr_loop_result:
  "\<exists>v \<in> set (x # env). getrefptr_loop x oldval env =
     (\<lparr>ref_ecount = ref_ecount v + 1, ref_ptr = ref_ptr v\<rparr>, v)"
proof (induction x oldval env rule: getrefptr_loop.induct)
  case (1 x oldval env)
  show ?case
  proof (cases "x = oldval")
    case True
    then show ?thesis using getrefptr_loop_hit [of x env] by auto
  next
    case False
    show ?thesis
    proof (cases env)
      case Nil
      with False show ?thesis
        by (subst getrefptr_loop.simps) (simp add: atomic_cas_def Let_def getrefptr_loop_hit)
    next
      case (Cons v env')
      with False 1(2)[OF refl refl _ Cons] show ?thesis
        by (subst getrefptr_loop.simps) (simp add: atomic_cas_def Let_def)
    qed
  qed
qed

lemma swap_loop_hit: "swap_loop x x objx env = (objx, x)"
  by (subst swap_loop.simps) (simp add: atomic_cas_def Let_def)

lemma swap_loop_result:
  "\<exists>v \<in> set (x # env). swap_loop x temp objx env = (objx, v)"
proof (induction x temp objx env rule: swap_loop.induct)
  case (1 x temp objx env)
  show ?case
  proof (cases "x = temp")
    case True
    then show ?thesis using swap_loop_hit [of x objx env] by auto
  next
    case False
    show ?thesis
    proof (cases env)
      case Nil
      with False show ?thesis
        by (subst swap_loop.simps) (simp add: atomic_cas_def Let_def swap_loop_hit)
    next
      case (Cons v env')
      with False 1(2)[OF refl _ Cons] show ?thesis
        by (subst swap_loop.simps) (simp add: atomic_cas_def Let_def)
    qed
  qed
qed

lemma cas_loop_hit: "cas_loop x x c xchgx env = (True, xchgx, x, x)"
  by (subst cas_loop.simps) (simp add: atomic_cas_def Let_def)

lemma cas_loop_miss:
  "x \<noteq> temp \<Longrightarrow> cas_loop x temp c xchgx env =
     (if c = ref_ptr x
      then cas_loop (fst (observe x env)) x c xchgx (snd (observe x env))
      else (False, x, xchgx, x))"
  by (subst cas_loop.simps) (simp add: atomic_cas_def Let_def observe_def split: list.splits)

lemma cas_loop_result:
  "ref_ptr temp = c \<Longrightarrow>
   \<exists>seen \<in> set (x # env). cas_loop x temp c xchgx env =
     (if ref_ptr seen = c then (True, xchgx, seen, seen) else (False, seen, xchgx, seen))"
proof (induction x temp c xchgx env rule: cas_loop.induct)
  case (1 x temp c xchgx env)
  show ?case
  proof (cases "x = temp")
    case True
    then show ?thesis using cas_loop_hit [of x c xchgx env] 1(3) by auto
  next
    case False
    show ?thesis
    proof (cases "c = ref_ptr x")
      case ptr: False
      with False show ?thesis by (simp add: cas_loop_miss) 
    next
      case ptr: True
      show ?thesis
      proof (cases env)
        case Nil
        with False ptr show ?thesis
          by (simp add: cas_loop_miss observe_def cas_loop_hit)
      next
        case (Cons v env')
        have "cas_ok (atomic_cas x temp xchgx) = False" "cas_old (atomic_cas x temp xchgx) = x"
          using False by (simp_all add: atomic_cas_def)
        with False ptr Cons 1(2)[OF refl _ _ Cons] show ?thesis
          by (simp add: cas_loop_miss observe_def)
      qed
    qed
  qed
qed

subsection \<open>The operations in closed form\<close>

lemma observe_mem: "observe x env = (v, env') \<Longrightarrow> set (v # env') \<subseteq> set (x # env)"
  by (auto simp: observe_def split: list.splits)

lemma adjust_result:
  assumes "deref h this = Inr b"
  shows "\<exists>c \<in> set (count b # env). adjust this xe xr env h =
           Inr (h(this \<mapsto> b\<lparr>count := \<lparr>ecount = ecount c + xe, rcount = rcount c + xr\<rparr>\<rparr>),
                if ecount c + xe = 0 \<and> rcount c + xr = 0 then 0 else 1)"
proof -
  obtain c1 env1 where o1: "observe (count b) env = (c1, env1)" by (cases "observe (count b) env")
  obtain c2 env2 where o2: "observe c1 env1 = (c2, env2)" by (cases "observe c1 env1")
  from observe_mem [OF o1] observe_mem [OF o2]
  have sub: "set (c2 # env2) \<subseteq> set (count b # env)" by auto
  obtain c where c: "c \<in> set (c2 # env2)"
    "adjust_loop c2 \<lparr>ecount = ecount (count b), rcount = rcount c1\<rparr> xe xr env2 =
       (\<lparr>ecount = ecount c + xe, rcount = rcount c + xr\<rparr>,
        if ecount c + xe = 0 \<and> rcount c + xr = 0 then 0 else 1)"
    using adjust_loop_result [of c2 env2 "\<lparr>ecount = ecount (count b), rcount = rcount c1\<rparr>" xe xr]
    by blast
  from c(1) sub have "c \<in> set (count b # env)" by blast
  moreover have "adjust this xe xr env h =
           Inr (h(this \<mapsto> b\<lparr>count := \<lparr>ecount = ecount c + xe, rcount = rcount c + xr\<rparr>\<rparr>),
                if ecount c + xe = 0 \<and> rcount c + xr = 0 then 0 else 1)"
    using assms o1 o2 c(2) by (simp add: adjust_def Let_def)
  ultimately show ?thesis by blast
qed

lemma adjust_fault: "deref h this = Inl f \<Longrightarrow> adjust this xe xr env h = Inl f"
  by (simp add: adjust_def)

lemma adjust_nil:
  "deref h this = Inr b \<Longrightarrow> adjust this xe xr [] h =
     Inr (h(this \<mapsto> b\<lparr>count := \<lparr>ecount = ecount (count b) + xe,
                                  rcount = rcount (count b) + xr\<rparr>\<rparr>),
          if ecount (count b) + xe = 0 \<and> rcount (count b) + xr = 0 then 0 else 1)"
  using adjust_result [of h this b "[]" xe xr] by simp

lemma getrefptr_result:
  "\<exists>v \<in> set (xxx this # env). getrefptr this env =
     (\<lparr>xxx = \<lparr>ref_ecount = ref_ecount v + 1, ref_ptr = ref_ptr v\<rparr>\<rparr>, ref_ptr v)"
proof -
  obtain x1 env1 where o1: "observe (xxx this) env = (x1, env1)" by (cases "observe (xxx this) env")
  obtain x2 env2 where o2: "observe x1 env1 = (x2, env2)" by (cases "observe x1 env1")
  from observe_mem [OF o1] observe_mem [OF o2]
  have sub: "set (x2 # env2) \<subseteq> set (xxx this # env)" by auto
  obtain v where v: "v \<in> set (x2 # env2)"
    "getrefptr_loop x2 \<lparr>ref_ecount = ref_ecount (xxx this), ref_ptr = ref_ptr x1\<rparr> env2 =
       (\<lparr>ref_ecount = ref_ecount v + 1, ref_ptr = ref_ptr v\<rparr>, v)"
    using getrefptr_loop_result [of x2 env2 "\<lparr>ref_ecount = ref_ecount (xxx this), ref_ptr = ref_ptr x1\<rparr>"]
    by blast
  from v(1) sub have "v \<in> set (xxx this # env)" by blast
  moreover have "getrefptr this env =
     (\<lparr>xxx = \<lparr>ref_ecount = ref_ecount v + 1, ref_ptr = ref_ptr v\<rparr>\<rparr>, ref_ptr v)"
    using o1 o2 v(2) by (simp add: getrefptr_def Let_def)
  ultimately show ?thesis by blast
qed

lemma getrefptr_nil:
  "getrefptr this [] =
     (\<lparr>xxx = \<lparr>ref_ecount = ref_ecount (xxx this) + 1, ref_ptr = ref_ptr (xxx this)\<rparr>\<rparr>,
      ref_ptr (xxx this))"
  using getrefptr_result [of this "[]"] by simp

lemma swap_result:
  "\<exists>v \<in> set (xxx this # env). swap this obj env = (obj, \<lparr>xxx = v\<rparr>)"
proof -
  obtain x1 env1 where o1: "observe (xxx this) env = (x1, env1)" by (cases "observe (xxx this) env")
  obtain x2 env2 where o2: "observe x1 env1 = (x2, env2)" by (cases "observe x1 env1")
  from observe_mem [OF o1] observe_mem [OF o2]
  have sub: "set (x2 # env2) \<subseteq> set (xxx this # env)" by auto
  obtain v where v: "v \<in> set (x2 # env2)"
    "swap_loop x2 \<lparr>ref_ecount = ref_ecount (xxx this), ref_ptr = ref_ptr x1\<rparr> (xxx obj) env2 =
       (xxx obj, v)"
    using swap_loop_result [of x2 env2 "\<lparr>ref_ecount = ref_ecount (xxx this), ref_ptr = ref_ptr x1\<rparr>" "xxx obj"]
    by blast
  from v(1) sub have "v \<in> set (xxx this # env)" by blast
  moreover have "swap this obj env = (obj, \<lparr>xxx = v\<rparr>)"
    using o1 o2 v(2) by (simp add: swap_def Let_def)
  ultimately show ?thesis by blast
qed

lemma swap_nil: "swap this obj [] = (obj, this)"
  using swap_result [of this "[]" obj] by simp

lemma cas_result:
  "\<exists>seen \<in> set (xxx this # env). cas this cmp xchg env =
     (if ref_ptr seen = refptr cmp then (True, xchg, \<lparr>xxx = seen\<rparr>, seen)
      else (False, \<lparr>xxx = seen\<rparr>, xchg, seen))"
proof -
  obtain x1 env1 where o1: "observe (xxx this) env = (x1, env1)" by (cases "observe (xxx this) env")
  from observe_mem [OF o1] have sub: "set (x1 # env1) \<subseteq> set (xxx this # env)" .
  obtain seen where s: "seen \<in> set (x1 # env1)"
    "cas_loop x1 \<lparr>ref_ecount = ref_ecount (xxx this), ref_ptr = refptr cmp\<rparr> (refptr cmp) (xxx xchg) env1 =
       (if ref_ptr seen = refptr cmp then (True, xxx xchg, seen, seen)
        else (False, seen, xxx xchg, seen))"
    using cas_loop_result [of "\<lparr>ref_ecount = ref_ecount (xxx this), ref_ptr = refptr cmp\<rparr>"
        "refptr cmp" x1 env1 "xxx xchg"]
    by auto
  from s(1) sub have "seen \<in> set (xxx this # env)" by blast
  moreover have "cas this cmp xchg env =
     (if ref_ptr seen = refptr cmp then (True, xchg, \<lparr>xxx = seen\<rparr>, seen)
      else (False, \<lparr>xxx = seen\<rparr>, xchg, seen))"
    using o1 s(2) by (simp add: cas_def Let_def)
  ultimately show ?thesis by blast
qed

lemma cas_nil:
  "cas this cmp xchg [] =
     (if ref_ptr (xxx this) = refptr cmp then (True, xchg, this, xxx this)
      else (False, this, xchg, xxx this))"
  using cas_result [of this "[]" cmp xchg] by auto

lemma deref_Inr: "deref h a = Inr b \<longleftrightarrow> a \<noteq> 0 \<and> h a = Some b"
  by (simp add: deref_def split: option.splits)

lemma release_result:
  assumes "deref h a = Inr b"
  shows "\<exists>c \<in> set (count b # env).
           (case adjust a xe xr env h of
              Inl f \<Rightarrow> Inl f
            | Inr (h', rc) \<Rightarrow> if rc = 0 then destroy_or_recycle a h' else Inr (h', [])) =
           Inr (let c' = \<lparr>ecount = ecount c + xe, rcount = rcount c + xr\<rparr>
                in if zero_pair c'
                   then (if pool b = 0
                         then (h(a := None),
                               (if ptr b \<noteq> 0 then [PayloadDeleted (ptr b)] else []) @ [BlockFreed a])
                         else (h(a \<mapsto> b\<lparr>count := c'\<rparr>), [PoolPut (pool b) a]))
                   else (h(a \<mapsto> b\<lparr>count := c'\<rparr>), []))"
proof -
  from adjust_result [OF assms, of env xe xr]
  obtain c where c: "c \<in> set (count b # env)"
    "adjust a xe xr env h =
       Inr (h(a \<mapsto> b\<lparr>count := \<lparr>ecount = ecount c + xe, rcount = rcount c + xr\<rparr>\<rparr>),
            if ecount c + xe = 0 \<and> rcount c + xr = 0 then 0 else 1)"
    by blast
  from assms have a: "a \<noteq> 0" by (simp add: deref_Inr)
  have "(case adjust a xe xr env h of
              Inl f \<Rightarrow> Inl f
            | Inr (h', rc) \<Rightarrow> if rc = 0 then destroy_or_recycle a h' else Inr (h', [])) =
           Inr (let c' = \<lparr>ecount = ecount c + xe, rcount = rcount c + xr\<rparr>
                in if zero_pair c'
                   then (if pool b = 0
                         then (h(a := None),
                               (if ptr b \<noteq> 0 then [PayloadDeleted (ptr b)] else []) @ [BlockFreed a])
                         else (h(a \<mapsto> b\<lparr>count := c'\<rparr>), [PoolPut (pool b) a]))
                   else (h(a \<mapsto> b\<lparr>count := c'\<rparr>), []))"
    using a by (simp add: c(2) destroy_or_recycle_def deref_def delete_ref_def zero_pair_def Let_def)
  with c(1) show ?thesis by blast
qed

lemma local_ptr_dtor_result:
  assumes "deref h (refptr this) = Inr b"
  shows "\<exists>c \<in> set (count b # env).
           local_ptr_dtor this env h =
           Inr (let c' = \<lparr>ecount = ecount c + - 1, rcount = rcount c + 0\<rparr>
                in if zero_pair c'
                   then (if pool b = 0
                         then (h(refptr this := None),
                               (if ptr b \<noteq> 0 then [PayloadDeleted (ptr b)] else []) @
                               [BlockFreed (refptr this)])
                         else (h(refptr this \<mapsto> b\<lparr>count := c'\<rparr>), [PoolPut (pool b) (refptr this)]))
                   else (h(refptr this \<mapsto> b\<lparr>count := c'\<rparr>), []))"
proof -
  from assms have "refptr this \<noteq> 0" by (simp add: deref_Inr)
  then show ?thesis
    using release_result [OF assms, of env "- 1" 0] by (simp add: local_ptr_dtor_def)
qed

lemma atomic_ptr_dtor_result:
  assumes "deref h (ref_ptr (xxx this)) = Inr b"
  shows "\<exists>c \<in> set (count b # env).
           atomic_ptr_dtor this env h =
           Inr (let c' = \<lparr>ecount = ecount c + ref_ecount (xxx this), rcount = rcount c + - 1\<rparr>
                in if zero_pair c'
                   then (if pool b = 0
                         then (h(ref_ptr (xxx this) := None),
                               (if ptr b \<noteq> 0 then [PayloadDeleted (ptr b)] else []) @
                               [BlockFreed (ref_ptr (xxx this))])
                         else (h(ref_ptr (xxx this) \<mapsto> b\<lparr>count := c'\<rparr>),
                               [PoolPut (pool b) (ref_ptr (xxx this))]))
                   else (h(ref_ptr (xxx this) \<mapsto> b\<lparr>count := c'\<rparr>), []))"
proof -
  from assms have "ref_ptr (xxx this) \<noteq> 0" by (simp add: deref_Inr)
  then show ?thesis
    using release_result [OF assms, of env "ref_ecount (xxx this)" "- 1"]
    by (simp add: atomic_ptr_dtor_def)
qed

lemma refcount_set_both: "c\<lparr>ecount := e, rcount := r\<rparr> = \<lparr>ecount = e, rcount = r\<rparr>"
  by (cases c) simp

lemma local_ptr_atomic_result:
  "\<exists>v \<in> set (xxx src # env). local_ptr_atomic src env =
     (\<lparr>xxx = \<lparr>ref_ecount = ref_ecount v + 1, ref_ptr = ref_ptr v\<rparr>\<rparr>, \<lparr>refptr = ref_ptr v\<rparr>)"
  using getrefptr_result [of src env] by (auto simp: local_ptr_atomic_def)

lemma adjust_pool_frame:
  assumes "adjust a xe xr env h = Inr (h', rc)"
  shows "getPool this h' = getPool this h"
proof (cases "deref h a")
  case (Inl f)
  with assms show ?thesis by (simp add: adjust_fault)
next
  case (Inr b)
  from adjust_result [OF Inr, of env xe xr] assms
  obtain c where "h' = h(a \<mapsto> b\<lparr>count := c\<rparr>)" by auto
  moreover from Inr have "a \<noteq> 0" "h a = Some b" by (simp_all add: deref_Inr)
  ultimately show ?thesis by (simp add: getPool_def deref_def)
qed

subsection \<open>Counting the objects on a block\<close>

lemma tally_Nil: "tally f [] = 0"
  by (simp add: tally_def)

lemma tally_snoc: "tally f (xs @ [v]) = tally f xs + (case v of None \<Rightarrow> 0 | Some y \<Rightarrow> f y)"
  by (simp add: tally_def)

lemma tally_Cons: "tally f (v # xs) = (case v of None \<Rightarrow> 0 | Some y \<Rightarrow> f y) + tally f xs"
  by (simp add: tally_def)

lemma tally_update:
  "i < length xs \<Longrightarrow>
   tally f (xs[i := v]) =
     tally f xs - (case xs ! i of None \<Rightarrow> 0 | Some y \<Rightarrow> f y) + (case v of None \<Rightarrow> 0 | Some y \<Rightarrow> f y)"
proof (induction xs arbitrary: i)
  case Nil
  then show ?case by simp
next
  case (Cons x xs)
  then show ?case by (cases i) (simp_all add: tally_Cons)
qed

lemma tally_nonneg: "(\<And>y. 0 \<le> f y) \<Longrightarrow> 0 \<le> tally f xs"
  by (induction xs) (simp_all add: tally_Nil tally_Cons split: option.splits)

lemma tally_member:
  "(\<And>y. 0 \<le> f y) \<Longrightarrow> i < length xs \<Longrightarrow> xs ! i = Some x \<Longrightarrow> f x \<le> tally f xs"
proof (induction xs arbitrary: i)
  case Nil
  then show ?case by simp
next
  case (Cons v xs)
  show ?case
  proof (cases i)
    case 0
    with Cons.prems tally_nonneg [of f xs] show ?thesis by (simp add: tally_Cons)
  next
    case (Suc k)
    with Cons.prems Cons.IH [of k] have "f x \<le> tally f xs" by simp
    moreover have "0 \<le> (case v of None \<Rightarrow> 0 | Some y \<Rightarrow> f y)"
      using Cons.prems(1) by (simp split: option.splits)
    ultimately show ?thesis by (simp add: tally_Cons)
  qed
qed

lemma tally_zero:
  "(\<And>y. g y \<noteq> 0 \<Longrightarrow> 0 < f y) \<Longrightarrow> (\<And>y. 0 \<le> f y) \<Longrightarrow> tally f xs = 0 \<Longrightarrow> tally g xs = 0"
proof (induction xs)
  case Nil
  then show ?case by (simp add: tally_Nil)
next
  case (Cons v xs)
  have n: "0 \<le> tally f xs" using Cons.prems(2) by (rule tally_nonneg)
  have v: "0 \<le> (case v of None \<Rightarrow> 0 | Some y \<Rightarrow> f y)"
    using Cons.prems(2) by (simp split: option.splits)
  from Cons.prems(3) n v have z: "tally f xs = 0" "(case v of None \<Rightarrow> 0 | Some y \<Rightarrow> f y) = 0"
    by (simp_all add: tally_Cons)
  from z(2) Cons.prems(1) have "(case v of None \<Rightarrow> 0 | Some y \<Rightarrow> g y) = 0"
    by (cases v) (auto simp: less_le)
  with Cons.IH [OF Cons.prems(1,2) z(1)] show ?case by (simp add: tally_Cons)
qed

lemma nlocals_nonneg: "0 \<le> nlocals w a"
  by (simp add: nlocals_def tally_nonneg)

lemma natomics_nonneg: "0 \<le> natomics w a"
  by (simp add: natomics_def tally_nonneg)

lemma nlocals_member: "local_at w i = Some p \<Longrightarrow> 1 \<le> nlocals w (refptr p)"
  using tally_member [of "\<lambda>q. if refptr q = refptr p then 1 else 0" i "locals w" p]
  by (simp add: nlocals_def local_at_def split: if_splits)

lemma natomics_member: "atomic_at w j = Some s \<Longrightarrow> 1 \<le> natomics w (ref_ptr (xxx s))"
  using tally_member [of "\<lambda>q. if ref_ptr (xxx q) = ref_ptr (xxx s) then 1 else 0" j "atomics w" s]
  by (simp add: natomics_def atomic_at_def split: if_splits)

lemma eph_out_zero: "natomics w a = 0 \<Longrightarrow> eph_out w a = 0"
  unfolding natomics_def eph_out_def
  by (rule tally_zero [where f = "\<lambda>s. if ref_ptr (xxx s) = a then 1 else 0"]) (simp_all split: if_splits)

subsection \<open>Every step keeps the accounting\<close>

lemma accounted_null: "accounted w \<Longrightarrow> blocks w 0 = None"
  by (simp add: accounted_def)

lemma accounted_atD: "accounted w \<Longrightarrow> a \<noteq> 0 \<Longrightarrow> accounted_at w a"
  by (simp add: accounted_def)

lemma local_live:
  assumes "accounted w" "local_at w i = Some p" "refptr p \<noteq> 0"
  shows "\<exists>b. blocks w (refptr p) = Some b \<and> \<not> zero_pair (count b) \<and> refptr p \<notin> pooled w \<and>
             rcount (count b) = natomics w (refptr p) \<and>
             ecount (count b) + eph_out w (refptr p) = nlocals w (refptr p)"
proof -
  from assms(1,3) have a: "accounted_at w (refptr p)" by (rule accounted_atD)
  from nlocals_member [OF assms(2)] have n: "1 \<le> nlocals w (refptr p)" .
  show ?thesis
  proof (cases "blocks w (refptr p)")
    case None
    with a n show ?thesis by (simp add: accounted_at_def)
  next
    case (Some b)
    have "\<not> zero_pair (count b)"
    proof
      assume z: "zero_pair (count b)"
      with a Some have "natomics w (refptr p) = 0" by (simp add: accounted_at_def zero_pair_def)
      then have "eph_out w (refptr p) = 0" by (rule eph_out_zero)
      with a Some z n show False by (simp add: accounted_at_def zero_pair_def)
    qed
    with a Some show ?thesis by (simp add: accounted_at_def)
  qed
qed

lemma atomic_live:
  assumes "accounted w" "atomic_at w j = Some s" "ref_ptr (xxx s) \<noteq> 0"
  shows "\<exists>b. blocks w (ref_ptr (xxx s)) = Some b \<and> \<not> zero_pair (count b) \<and>
             ref_ptr (xxx s) \<notin> pooled w \<and>
             rcount (count b) = natomics w (ref_ptr (xxx s)) \<and>
             ecount (count b) + eph_out w (ref_ptr (xxx s)) = nlocals w (ref_ptr (xxx s))"
proof -
  from assms(1,3) have a: "accounted_at w (ref_ptr (xxx s))" by (rule accounted_atD)
  from natomics_member [OF assms(2)] have n: "1 \<le> natomics w (ref_ptr (xxx s))" .
  show ?thesis
  proof (cases "blocks w (ref_ptr (xxx s))")
    case None
    with a n show ?thesis by (simp add: accounted_at_def)
  next
    case (Some b)
    with a n have "\<not> zero_pair (count b)" by (auto simp: accounted_at_def zero_pair_def)
    with a Some show ?thesis by (simp add: accounted_at_def)
  qed
qed

lemmas counters = nlocals_def natomics_def eph_out_def tally_snoc tally_update

lemma accounted_step:
  assumes "accounted w" "blocks w' 0 = blocks w 0"
    and "\<And>x. x \<noteq> 0 \<Longrightarrow> accounted_at w x \<Longrightarrow> accounted_at w' x"
  shows "accounted w'"
  using assms by (simp add: accounted_def)

lemma step_LocalObj_accounted:
  assumes "accounted w" "step (LocalObj a obj) w = Some (Inr w')"
  shows "accounted w'"
proof (cases "obj = 0")
  case True
  with assms(2) have w': "w' = w\<lparr>locals := locals w @ [Some \<lparr>refptr = 0\<rparr>]\<rparr>"
    by (simp add: step_def local_ptr_obj_def)
  show ?thesis
  proof (rule accounted_step [OF assms(1)])
    show "blocks w' 0 = blocks w 0" using w' by simp
  next
    fix x :: addr
    assume "x \<noteq> 0" "accounted_at w x"
    with w' show "accounted_at w' x"
      by (simp add: accounted_at_def counters split: option.splits)
  qed
next
  case False
  with assms(2) have f: "a \<noteq> 0" "blocks w a = None"
    and w': "w' = w\<lparr>blocks := (blocks w)(a \<mapsto> \<lparr>count = \<lparr>ecount = 1, rcount = 0\<rparr>, ptr = obj,
                                                  pool = 0, next_ref = 0\<rparr>),
                    locals := locals w @ [Some \<lparr>refptr = a\<rparr>]\<rparr>"
    by (auto simp: step_def local_ptr_obj_def atomic_ptr_ref_ctor_def Let_def split: if_splits)
  show ?thesis
  proof (rule accounted_step [OF assms(1)])
    show "blocks w' 0 = blocks w 0" using w' f by simp
  next
    fix x :: addr
    assume x: "x \<noteq> 0" "accounted_at w x"
    show "accounted_at w' x"
    proof (cases "x = a")
      case True
      with x f have z: "nlocals w a = 0" "natomics w a = 0" "a \<notin> pooled w"
        by (simp_all add: accounted_at_def)
      from z(2) have "eph_out w a = 0" by (rule eph_out_zero)
      with z True w' show ?thesis
        by (simp add: accounted_at_def nlocals_def natomics_def eph_out_def tally_snoc zero_pair_def)
    next
      case False
      with x w' show ?thesis
        by (simp add: accounted_at_def counters split: option.splits)
    qed
  qed
qed


lemma deref_live: "blocks w p = Some b \<Longrightarrow> p \<noteq> 0 \<Longrightarrow> deref (blocks w) p = Inr b"
  by (simp add: deref_def)

lemma local_atD: "local_at w i = Some p \<Longrightarrow> i < length (locals w) \<and> locals w ! i = Some p"
  by (simp add: local_at_def split: if_splits)

lemma atomic_atD: "atomic_at w j = Some s \<Longrightarrow> j < length (atomics w) \<and> atomics w ! j = Some s"
  by (simp add: atomic_at_def split: if_splits)

lemma step_LocalCopy_accounted:
  assumes "accounted w" "step (LocalCopy i) w = Some (Inr w')"
  shows "accounted w'"
proof -
  from assms(2) obtain src where src: "local_at w i = Some src"
    by (auto simp: step_def split: option.splits)
  show ?thesis
  proof (cases "refptr src = 0")
    case True
    with assms(2) src have w': "w' = w\<lparr>locals := locals w @ [Some \<lparr>refptr = 0\<rparr>]\<rparr>"
      by (simp add: step_def local_ptr_copy_def)
    show ?thesis
    proof (rule accounted_step [OF assms(1)])
      show "blocks w' 0 = blocks w 0" using w' by simp
    next
      fix x :: addr
      assume "x \<noteq> 0" "accounted_at w x"
      with w' show "accounted_at w' x"
        by (simp add: accounted_at_def counters split: option.splits)
    qed
  next
    case False
    from local_live [OF assms(1) src False] obtain b where
      b: "blocks w (refptr src) = Some b" "\<not> zero_pair (count b)" "refptr src \<notin> pooled w"
         "rcount (count b) = natomics w (refptr src)"
         "ecount (count b) + eph_out w (refptr src) = nlocals w (refptr src)"
      by blast
    from assms(2) src False b(1)
    have w': "w' = w\<lparr>blocks := (blocks w)(refptr src \<mapsto>
                         b\<lparr>count := \<lparr>ecount = ecount (count b) + 1, rcount = rcount (count b) + 0\<rparr>\<rparr>),
                      locals := locals w @ [Some \<lparr>refptr = refptr src\<rparr>]\<rparr>"
      by (simp add: step_def local_ptr_copy_def adjust_nil deref_live)
    have nz: "\<not> (ecount (count b) + 1 = 0 \<and> rcount (count b) = 0)"
    proof
      assume z: "ecount (count b) + 1 = 0 \<and> rcount (count b) = 0"
      with b(4) have "eph_out w (refptr src) = 0" by (simp add: eph_out_zero)
      with b(5) z nlocals_nonneg [of w "refptr src"] show False by simp
    qed
    show ?thesis
    proof (rule accounted_step [OF assms(1)])
      show "blocks w' 0 = blocks w 0" using w' False by simp
    next
      fix x :: addr
      assume x: "x \<noteq> 0" "accounted_at w x"
      show "accounted_at w' x"
      proof (cases "x = refptr src")
        case True
        with b nz w' show ?thesis
          by (simp add: accounted_at_def counters zero_pair_def)
      next
        case False
        with x w' show ?thesis
          by (simp add: accounted_at_def counters split: option.splits)
      qed
    qed
  qed
qed

lemma step_LocalAtomic_accounted:
  assumes "accounted w" "step (LocalAtomic j) w = Some (Inr w')"
  shows "accounted w'"
proof -
  from assms(2) obtain src where src: "atomic_at w j = Some src"
    by (auto simp: step_def split: option.splits)
  note j = atomic_atD [OF src]
  from assms(2) src
  have w': "w' = w\<lparr>atomics := (atomics w)[j := Some \<lparr>xxx = \<lparr>ref_ecount = ref_ecount (xxx src) + 1,
                                                          ref_ptr = ref_ptr (xxx src)\<rparr>\<rparr>],
                    locals := locals w @ [Some \<lparr>refptr = ref_ptr (xxx src)\<rparr>]\<rparr>"
    by (simp add: step_def local_ptr_atomic_def getrefptr_nil)
  show ?thesis
  proof (rule accounted_step [OF assms(1)])
    show "blocks w' 0 = blocks w 0" using w' by simp
  next
    fix x :: addr
    assume x: "x \<noteq> 0" "accounted_at w x"
    show "accounted_at w' x"
    proof (cases "x = ref_ptr (xxx src)")
      case True
      with x(1) have "ref_ptr (xxx src) \<noteq> 0" by simp
      from atomic_live [OF assms(1) src this] obtain b where
        "blocks w (ref_ptr (xxx src)) = Some b" "ref_ptr (xxx src) \<notin> pooled w"
        "\<not> zero_pair (count b)"
        "rcount (count b) = natomics w (ref_ptr (xxx src))"
        "ecount (count b) + eph_out w (ref_ptr (xxx src)) = nlocals w (ref_ptr (xxx src))"
        by blast
      with True w' j show ?thesis
        by (simp add: accounted_at_def counters)
    next
      case False
      with x w' j show ?thesis
        by (simp add: accounted_at_def counters split: option.splits)
    qed
  qed
qed


lemma pooled_block:
  assumes "accounted w" "src \<noteq> 0" "src \<in> pooled w"
  shows "\<exists>b. blocks w src = Some b \<and> zero_pair (count b) \<and> natomics w src = 0 \<and>
             eph_out w src = 0 \<and> nlocals w src = 0"
proof -
  from assms(1,2) have a: "accounted_at w src" by (rule accounted_atD)
  with assms(3) obtain b where b: "blocks w src = Some b" "zero_pair (count b)"
    by (cases "blocks w src") (simp_all add: accounted_at_def)
  with a have n: "natomics w src = 0" by (simp add: accounted_at_def zero_pair_def)
  then have e: "eph_out w src = 0" by (rule eph_out_zero)
  with a b have "nlocals w src = 0" by (simp add: accounted_at_def zero_pair_def)
  with b n e show ?thesis by simp
qed

lemma step_LocalRecycled_accounted:
  assumes "accounted w" "step (LocalRecycled src) w = Some (Inr w')"
  shows "accounted w'"
proof (cases "src = 0")
  case True
  with assms(2) have w': "w' = w\<lparr>locals := locals w @ [Some \<lparr>refptr = 0\<rparr>], pooled := pooled w - {0}\<rparr>"
    by (simp add: step_def local_ptr_recycled_def)
  show ?thesis
  proof (rule accounted_step [OF assms(1)])
    show "blocks w' 0 = blocks w 0" using w' by simp
  next
    fix x :: addr
    assume "x \<noteq> 0" "accounted_at w x"
    with w' show "accounted_at w' x"
      by (simp add: accounted_at_def counters split: option.splits)
  qed
next
  case False
  with assms(2) have p: "src \<in> pooled w" by (simp add: step_def split: if_splits)
  from pooled_block [OF assms(1) False p] obtain b where
    b: "blocks w src = Some b" "zero_pair (count b)" "natomics w src = 0" "eph_out w src = 0"
       "nlocals w src = 0"
    by blast
  from assms(2) False p b(1)
  have w': "w' = w\<lparr>blocks := (blocks w)(src \<mapsto> b\<lparr>count := \<lparr>ecount = 1, rcount = 0\<rparr>\<rparr>),
                    locals := locals w @ [Some \<lparr>refptr = src\<rparr>], pooled := pooled w - {src}\<rparr>"
    by (simp add: step_def local_ptr_recycled_def deref_live Let_def refcount_set_both)
  show ?thesis
  proof (rule accounted_step [OF assms(1)])
    show "blocks w' 0 = blocks w 0" using w' False by simp
  next
    fix x :: addr
    assume x: "x \<noteq> 0" "accounted_at w x"
    show "accounted_at w' x"
    proof (cases "x = src")
      case True
      with b w' show ?thesis
        by (simp add: accounted_at_def counters zero_pair_def)
    next
      case False
      with x w' show ?thesis
        by (simp add: accounted_at_def counters split: option.splits)
    qed
  qed
qed

lemma step_LocalDtor_accounted:
  assumes "accounted w" "step (LocalDtor i) w = Some (Inr w')"
  shows "accounted w'"
proof -
  from assms(2) obtain this where lp: "local_at w i = Some this"
    by (auto simp: step_def split: option.splits)
  note i = local_atD [OF lp]
  show ?thesis
  proof (cases "refptr this = 0")
    case True
    with assms(2) lp have w': "w' = w\<lparr>locals := (locals w)[i := None]\<rparr>"
      by (simp add: step_def local_ptr_dtor_def)
    show ?thesis
    proof (rule accounted_step [OF assms(1)])
      show "blocks w' 0 = blocks w 0" using w' by simp
    next
      fix x :: addr
      assume "x \<noteq> 0" "accounted_at w x"
      with w' i True show "accounted_at w' x"
        by (simp add: accounted_at_def counters split: option.splits)
    qed
  next
    case False
    from local_live [OF assms(1) lp False] obtain b where
      b: "blocks w (refptr this) = Some b" "\<not> zero_pair (count b)" "refptr this \<notin> pooled w"
         "rcount (count b) = natomics w (refptr this)"
         "ecount (count b) + eph_out w (refptr this) = nlocals w (refptr this)"
      by blast
    define c' where "c' = \<lparr>ecount = ecount (count b) + - 1, rcount = rcount (count b) + 0\<rparr>"
    from local_ptr_dtor_result [of "blocks w" this b "[]"] b(1) False
    have d: "local_ptr_dtor this [] (blocks w) =
           Inr (if zero_pair c'
                then (if pool b = 0
                      then ((blocks w)(refptr this := None),
                            (if ptr b \<noteq> 0 then [PayloadDeleted (ptr b)] else []) @
                            [BlockFreed (refptr this)])
                      else ((blocks w)(refptr this \<mapsto> b\<lparr>count := c'\<rparr>),
                            [PoolPut (pool b) (refptr this)]))
                else ((blocks w)(refptr this \<mapsto> b\<lparr>count := c'\<rparr>), []))"
      by (simp add: deref_live c'_def Let_def)
    have z: "zero_pair c' \<Longrightarrow> natomics w (refptr this) = 0 \<and> eph_out w (refptr this) = 0 \<and>
                nlocals w (refptr this) = 1"
    proof -
      assume "zero_pair c'"
      then have e: "ecount (count b) = 1" "rcount (count b) = 0"
        by (simp_all add: zero_pair_def c'_def)
      with b(4) have n: "natomics w (refptr this) = 0" by simp
      then have "eph_out w (refptr this) = 0" by (rule eph_out_zero)
      with n e b(5) show ?thesis by simp
    qed
    show ?thesis
    proof (rule accounted_step [OF assms(1)])
      show "blocks w' 0 = blocks w 0"
        using assms(2) lp d False by (auto simp: step_def split: if_splits)
    next
      fix x :: addr
      assume x: "x \<noteq> 0" "accounted_at w x"
      show "accounted_at w' x"
      proof (cases "x = refptr this")
        case neq: False
        with assms(2) lp d x i show ?thesis
          by (auto simp: step_def accounted_at_def counters split: if_splits option.splits)
      next
        case True
        show ?thesis
        proof (cases "zero_pair c'")
          case zero: True
          note z [OF zero]
          with assms(2) lp d True i zero b show ?thesis
            by (auto simp: step_def accounted_at_def counters zero_pair_def split: if_splits)
        next
          case nonzero: False
          with assms(2) lp d True i b show ?thesis
            by (auto simp: step_def accounted_at_def counters c'_def split: if_splits)
        qed
      qed
    qed
  qed
qed


lemma step_LocalSwap_accounted:
  assumes "accounted w" "step (LocalSwap i k) w = Some (Inr w')"
  shows "accounted w'"
proof -
  from assms(2) obtain this other where
    lp: "local_at w i = Some this" "local_at w k = Some other"
    by (auto simp: step_def split: option.splits)
  note i = local_atD [OF lp(1)] and k = local_atD [OF lp(2)]
  from assms(2) lp
  have w': "w' = w\<lparr>locals := (locals w)[i := Some \<lparr>refptr = refptr other\<rparr>,
                                            k := Some \<lparr>refptr = refptr this\<rparr>]\<rparr>"
    by (simp add: step_def local_ptr_swap_def Let_def)
  show ?thesis
  proof (rule accounted_step [OF assms(1)])
    show "blocks w' 0 = blocks w 0" using w' by simp
  next
    fix x :: addr
    assume "x \<noteq> 0" "accounted_at w x"
    with w' i k show "accounted_at w' x"
      by (auto simp: accounted_at_def counters nth_list_update split: option.splits)
  qed
qed

lemma step_SetPool_accounted:
  assumes "accounted w" "step (SetPool i pool') w = Some (Inr w')"
  shows "accounted w'"
proof -
  from assms(2) obtain this where lp: "local_at w i = Some this"
    by (auto simp: step_def split: option.splits)
  from assms(2) lp obtain b where
    b: "deref (blocks w) (refptr this) = Inr b"
    and w': "w' = w\<lparr>blocks := (blocks w)(refptr this \<mapsto> b\<lparr>pool := pool'\<rparr>)\<rparr>"
    by (auto simp: step_def setPool_def split: sum.splits)
  from b have n: "refptr this \<noteq> 0" "blocks w (refptr this) = Some b"
    by (simp_all add: deref_Inr)
  show ?thesis
  proof (rule accounted_step [OF assms(1)])
    show "blocks w' 0 = blocks w 0" using w' n by simp
  next
    fix x :: addr
    assume "x \<noteq> 0" "accounted_at w x"
    with w' n show "accounted_at w' x"
      by (auto simp: accounted_at_def counters split: option.splits)
  qed
qed

lemma step_AtomicObj_accounted:
  assumes "accounted w" "step (AtomicObj a obj) w = Some (Inr w')"
  shows "accounted w'"
proof (cases "obj = 0")
  case True
  with assms(2)
  have w': "w' = w\<lparr>atomics := atomics w @ [Some \<lparr>xxx = \<lparr>ref_ecount = 0, ref_ptr = 0\<rparr>\<rparr>]\<rparr>"
    by (simp add: step_def atomic_ptr_obj_def)
  show ?thesis
  proof (rule accounted_step [OF assms(1)])
    show "blocks w' 0 = blocks w 0" using w' by simp
  next
    fix x :: addr
    assume "x \<noteq> 0" "accounted_at w x"
    with w' show "accounted_at w' x"
      by (simp add: accounted_at_def counters split: option.splits)
  qed
next
  case False
  with assms(2) have f: "a \<noteq> 0" "blocks w a = None"
    and w': "w' = w\<lparr>blocks := (blocks w)(a \<mapsto> \<lparr>count = \<lparr>ecount = 0, rcount = 1\<rparr>, ptr = obj,
                                                  pool = 0, next_ref = 0\<rparr>),
                    atomics := atomics w @ [Some \<lparr>xxx = \<lparr>ref_ecount = 0, ref_ptr = a\<rparr>\<rparr>]\<rparr>"
    by (auto simp: step_def atomic_ptr_obj_def atomic_ptr_ref_ctor_def Let_def split: if_splits)
  show ?thesis
  proof (rule accounted_step [OF assms(1)])
    show "blocks w' 0 = blocks w 0" using w' f by simp
  next
    fix x :: addr
    assume x: "x \<noteq> 0" "accounted_at w x"
    show "accounted_at w' x"
    proof (cases "x = a")
      case True
      with x f have z: "nlocals w a = 0" "natomics w a = 0" "a \<notin> pooled w"
        by (simp_all add: accounted_at_def)
      from z(2) have "eph_out w a = 0" by (rule eph_out_zero)
      with z True w' show ?thesis
        by (simp add: accounted_at_def nlocals_def natomics_def eph_out_def tally_snoc zero_pair_def)
    next
      case False
      with x w' show ?thesis
        by (simp add: accounted_at_def counters split: option.splits)
    qed
  qed
qed

lemma step_AtomicLocal_accounted:
  assumes "accounted w" "step (AtomicLocal i) w = Some (Inr w')"
  shows "accounted w'"
proof -
  from assms(2) obtain src where src: "local_at w i = Some src"
    by (auto simp: step_def split: option.splits)
  show ?thesis
  proof (cases "refptr src = 0")
    case True
    with assms(2) src
    have w': "w' = w\<lparr>atomics := atomics w @ [Some \<lparr>xxx = \<lparr>ref_ecount = 0, ref_ptr = 0\<rparr>\<rparr>]\<rparr>"
      by (simp add: step_def atomic_ptr_local_def)
    show ?thesis
    proof (rule accounted_step [OF assms(1)])
      show "blocks w' 0 = blocks w 0" using w' by simp
    next
      fix x :: addr
      assume "x \<noteq> 0" "accounted_at w x"
      with w' show "accounted_at w' x"
        by (simp add: accounted_at_def counters split: option.splits)
    qed
  next
    case False
    from local_live [OF assms(1) src False] obtain b where
      b: "blocks w (refptr src) = Some b" "\<not> zero_pair (count b)" "refptr src \<notin> pooled w"
         "rcount (count b) = natomics w (refptr src)"
         "ecount (count b) + eph_out w (refptr src) = nlocals w (refptr src)"
      by blast
    from assms(2) src False b(1)
    have w': "w' = w\<lparr>blocks := (blocks w)(refptr src \<mapsto>
                         b\<lparr>count := \<lparr>ecount = ecount (count b) + 0, rcount = rcount (count b) + 1\<rparr>\<rparr>),
                      atomics := atomics w @ [Some \<lparr>xxx = \<lparr>ref_ecount = 0, ref_ptr = refptr src\<rparr>\<rparr>]\<rparr>"
      by (simp add: step_def atomic_ptr_local_def adjust_nil deref_live)
    have nz: "rcount (count b) + 1 \<noteq> 0"
      using b(4) natomics_nonneg [of w "refptr src"] by simp
    show ?thesis
    proof (rule accounted_step [OF assms(1)])
      show "blocks w' 0 = blocks w 0" using w' False by simp
    next
      fix x :: addr
      assume x: "x \<noteq> 0" "accounted_at w x"
      show "accounted_at w' x"
      proof (cases "x = refptr src")
        case True
        with b nz w' show ?thesis
          by (simp add: accounted_at_def counters zero_pair_def)
      next
        case False
        with x w' show ?thesis
          by (simp add: accounted_at_def counters split: option.splits)
      qed
    qed
  qed
qed

lemma step_AtomicAdjustLink_accounted:
  assumes "accounted w" "step (AtomicAdjustLink i) w = Some (Inr w')"
  shows "accounted w'"
proof -
  from assms(2) obtain p where p: "local_at w i = Some p"
    by (auto simp: step_def split: option.splits)
  note i = local_atD [OF p]
  show ?thesis
  proof (cases "refptr p = 0")
    case True
    with assms(2) p
    have w': "w' = w\<lparr>locals := (locals w)[i := None],
                      atomics := atomics w @ [Some \<lparr>xxx = \<lparr>ref_ecount = 0, ref_ptr = 0\<rparr>\<rparr>]\<rparr>"
      by (simp add: step_def atomic_ptr_adjust_link_def)
    show ?thesis
    proof (rule accounted_step [OF assms(1)])
      show "blocks w' 0 = blocks w 0" using w' by simp
    next
      fix x :: addr
      assume "x \<noteq> 0" "accounted_at w x"
      with w' i True show "accounted_at w' x"
        by (simp add: accounted_at_def counters split: option.splits)
    qed
  next
    case False
    from local_live [OF assms(1) p False] obtain b where
      b: "blocks w (refptr p) = Some b" "\<not> zero_pair (count b)" "refptr p \<notin> pooled w"
         "rcount (count b) = natomics w (refptr p)"
         "ecount (count b) + eph_out w (refptr p) = nlocals w (refptr p)"
      by blast
    from assms(2) p False b(1)
    have w': "w' = w\<lparr>blocks := (blocks w)(refptr p \<mapsto>
                         b\<lparr>count := \<lparr>ecount = ecount (count b) + - 1, rcount = rcount (count b) + 1\<rparr>\<rparr>),
                      locals := (locals w)[i := None],
                      atomics := atomics w @ [Some \<lparr>xxx = \<lparr>ref_ecount = 0, ref_ptr = refptr p\<rparr>\<rparr>]\<rparr>"
      by (simp add: step_def atomic_ptr_adjust_link_def adjust_nil deref_live)
    have nz: "rcount (count b) + 1 \<noteq> 0"
      using b(4) natomics_nonneg [of w "refptr p"] by simp
    show ?thesis
    proof (rule accounted_step [OF assms(1)])
      show "blocks w' 0 = blocks w 0" using w' False by simp
    next
      fix x :: addr
      assume x: "x \<noteq> 0" "accounted_at w x"
      show "accounted_at w' x"
      proof (cases "x = refptr p")
        case True
        with b nz w' i show ?thesis
          by (simp add: accounted_at_def counters zero_pair_def)
      next
        case False
        with x w' i show ?thesis
          by (simp add: accounted_at_def counters split: option.splits)
      qed
    qed
  qed
qed


lemma step_AtomicRecycled_accounted:
  assumes "accounted w" "step (AtomicRecycled src) w = Some (Inr w')"
  shows "accounted w'"
proof (cases "src = 0")
  case True
  with assms(2)
  have w': "w' = w\<lparr>atomics := atomics w @ [Some \<lparr>xxx = \<lparr>ref_ecount = 0, ref_ptr = 0\<rparr>\<rparr>],
                    pooled := pooled w - {0}\<rparr>"
    by (simp add: step_def atomic_ptr_recycled_def)
  show ?thesis
  proof (rule accounted_step [OF assms(1)])
    show "blocks w' 0 = blocks w 0" using w' by simp
  next
    fix x :: addr
    assume "x \<noteq> 0" "accounted_at w x"
    with w' show "accounted_at w' x"
      by (simp add: accounted_at_def counters split: option.splits)
  qed
next
  case False
  with assms(2) have p: "src \<in> pooled w" by (simp add: step_def split: if_splits)
  from pooled_block [OF assms(1) False p] obtain b where
    b: "blocks w src = Some b" "zero_pair (count b)" "natomics w src = 0" "eph_out w src = 0"
       "nlocals w src = 0"
    by blast
  from assms(2) False p b(1)
  have w': "w' = w\<lparr>blocks := (blocks w)(src \<mapsto> b\<lparr>count := \<lparr>ecount = 0, rcount = 1\<rparr>\<rparr>),
                    atomics := atomics w @ [Some \<lparr>xxx = \<lparr>ref_ecount = 0, ref_ptr = src\<rparr>\<rparr>],
                    pooled := pooled w - {src}\<rparr>"
    by (simp add: step_def atomic_ptr_recycled_def deref_live Let_def refcount_set_both)
  show ?thesis
  proof (rule accounted_step [OF assms(1)])
    show "blocks w' 0 = blocks w 0" using w' False by simp
  next
    fix x :: addr
    assume x: "x \<noteq> 0" "accounted_at w x"
    show "accounted_at w' x"
    proof (cases "x = src")
      case True
      with b w' show ?thesis
        by (simp add: accounted_at_def counters zero_pair_def)
    next
      case False
      with x w' show ?thesis
        by (simp add: accounted_at_def counters split: option.splits)
    qed
  qed
qed

lemma step_AtomicDtor_accounted:
  assumes "accounted w" "step (AtomicDtor j) w = Some (Inr w')"
  shows "accounted w'"
proof -
  from assms(2) obtain this where ap: "atomic_at w j = Some this"
    by (auto simp: step_def split: option.splits)
  note j = atomic_atD [OF ap]
  show ?thesis
  proof (cases "ref_ptr (xxx this) = 0")
    case True
    with assms(2) ap have w': "w' = w\<lparr>atomics := (atomics w)[j := None]\<rparr>"
      by (simp add: step_def atomic_ptr_dtor_def)
    show ?thesis
    proof (rule accounted_step [OF assms(1)])
      show "blocks w' 0 = blocks w 0" using w' by simp
    next
      fix x :: addr
      assume "x \<noteq> 0" "accounted_at w x"
      with w' j True show "accounted_at w' x"
        by (simp add: accounted_at_def counters split: option.splits)
    qed
  next
    case False
    from atomic_live [OF assms(1) ap False] obtain b where
      b: "blocks w (ref_ptr (xxx this)) = Some b" "\<not> zero_pair (count b)"
         "ref_ptr (xxx this) \<notin> pooled w"
         "rcount (count b) = natomics w (ref_ptr (xxx this))"
         "ecount (count b) + eph_out w (ref_ptr (xxx this)) = nlocals w (ref_ptr (xxx this))"
      by blast
    define c' where "c' = \<lparr>ecount = ecount (count b) + ref_ecount (xxx this),
                           rcount = rcount (count b) + - 1\<rparr>"
    from atomic_ptr_dtor_result [of "blocks w" this b "[]"] b(1) False
    have d: "atomic_ptr_dtor this [] (blocks w) =
           Inr (if zero_pair c'
                then (if pool b = 0
                      then ((blocks w)(ref_ptr (xxx this) := None),
                            (if ptr b \<noteq> 0 then [PayloadDeleted (ptr b)] else []) @
                            [BlockFreed (ref_ptr (xxx this))])
                      else ((blocks w)(ref_ptr (xxx this) \<mapsto> b\<lparr>count := c'\<rparr>),
                            [PoolPut (pool b) (ref_ptr (xxx this))]))
                else ((blocks w)(ref_ptr (xxx this) \<mapsto> b\<lparr>count := c'\<rparr>), []))"
      by (simp add: deref_live c'_def Let_def)
    have z: "zero_pair c' \<Longrightarrow> natomics w (ref_ptr (xxx this)) = 1 \<and>
                eph_out w (ref_ptr (xxx this)) = ref_ecount (xxx this) \<and>
                nlocals w (ref_ptr (xxx this)) = 0"
    proof -
      assume "zero_pair c'"
      then have e: "ecount (count b) + ref_ecount (xxx this) = 0" "rcount (count b) = 1"
        by (simp_all add: zero_pair_def c'_def)
      with b(4) have n: "natomics w (ref_ptr (xxx this)) = 1" by simp
      let ?w = "w\<lparr>atomics := (atomics w)[j := None]\<rparr>"
      from n j have "natomics ?w (ref_ptr (xxx this)) = 0"
        by (simp add: natomics_def tally_update)
      then have "eph_out ?w (ref_ptr (xxx this)) = 0" by (rule eph_out_zero)
      with j have "eph_out w (ref_ptr (xxx this)) = ref_ecount (xxx this)"
        by (simp add: eph_out_def tally_update)
      with n e b(5) show ?thesis by simp
    qed
    show ?thesis
    proof (rule accounted_step [OF assms(1)])
      show "blocks w' 0 = blocks w 0"
        using assms(2) ap d False by (auto simp: step_def split: if_splits)
    next
      fix x :: addr
      assume x: "x \<noteq> 0" "accounted_at w x"
      show "accounted_at w' x"
      proof (cases "x = ref_ptr (xxx this)")
        case neq: False
        with assms(2) ap d x j show ?thesis
          by (auto simp: step_def accounted_at_def counters split: if_splits option.splits)
      next
        case True
        show ?thesis
        proof (cases "zero_pair c'")
          case zero: True
          note z [OF zero]
          with assms(2) ap d True j zero b show ?thesis
            by (auto simp: step_def accounted_at_def counters zero_pair_def split: if_splits)
        next
          case nonzero: False
          with assms(2) ap d True j b show ?thesis
            by (auto simp: step_def accounted_at_def counters c'_def split: if_splits)
        qed
      qed
    qed
  qed
qed

lemma step_AtomicSwap_accounted:
  assumes "accounted w" "step (AtomicSwap j k) w = Some (Inr w')"
  shows "accounted w'"
proof -
  from assms(2) obtain this obj where
    ap: "atomic_at w j = Some this" "atomic_at w k = Some obj" and jk: "j \<noteq> k"
    by (auto simp: step_def split: option.splits if_splits)
  note j = atomic_atD [OF ap(1)] and k = atomic_atD [OF ap(2)]
  from assms(2) ap jk
  have w': "w' = w\<lparr>atomics := (atomics w)[j := Some obj, k := Some this]\<rparr>"
    by (simp add: step_def swap_nil)
  show ?thesis
  proof (rule accounted_step [OF assms(1)])
    show "blocks w' 0 = blocks w 0" using w' by simp
  next
    fix x :: addr
    assume "x \<noteq> 0" "accounted_at w x"
    with w' j k jk show "accounted_at w' x"
      by (auto simp: accounted_at_def counters nth_list_update split: option.splits)
  qed
qed

lemma step_Cas_accounted:
  assumes "accounted w" "step (Cas j i k) w = Some (Inr w')"
  shows "accounted w'"
proof -
  from assms(2) obtain this cmp xchg where
    ap: "atomic_at w j = Some this" "local_at w i = Some cmp" "atomic_at w k = Some xchg"
    and jk: "j \<noteq> k"
    by (auto simp: step_def split: option.splits if_splits)
  note j = atomic_atD [OF ap(1)] and k = atomic_atD [OF ap(3)]
  from assms(2) ap jk
  have w': "w' = (if ref_ptr (xxx this) = refptr cmp
                  then w\<lparr>atomics := (atomics w)[j := Some xchg, k := Some this]\<rparr>
                  else w\<lparr>atomics := (atomics w)[j := Some this, k := Some xchg]\<rparr>)"
    by (auto simp: step_def cas_nil split: if_splits)
  show ?thesis
  proof (rule accounted_step [OF assms(1)])
    show "blocks w' 0 = blocks w 0" using w' by simp
  next
    fix x :: addr
    assume "x \<noteq> 0" "accounted_at w x"
    with w' j k jk show "accounted_at w' x"
      by (auto simp: accounted_at_def counters nth_list_update split: option.splits)
  qed
qed

lemma step_accounted:
  assumes "accounted w" "step o' w = Some (Inr w')"
  shows "accounted w'"
proof (cases o')
  case (LocalObj a obj)
  with assms show ?thesis by (simp add: step_LocalObj_accounted)
next
  case (LocalCopy i)
  with assms show ?thesis by (simp add: step_LocalCopy_accounted)
next
  case (LocalAtomic j)
  with assms show ?thesis by (simp add: step_LocalAtomic_accounted)
next
  case (LocalRecycled src)
  with assms show ?thesis by (simp add: step_LocalRecycled_accounted)
next
  case (LocalDtor i)
  with assms show ?thesis by (simp add: step_LocalDtor_accounted)
next
  case (LocalSwap i k)
  with assms show ?thesis by (simp add: step_LocalSwap_accounted)
next
  case (SetPool i p)
  with assms show ?thesis by (simp add: step_SetPool_accounted)
next
  case (AtomicObj a obj)
  with assms show ?thesis by (simp add: step_AtomicObj_accounted)
next
  case (AtomicLocal i)
  with assms show ?thesis by (simp add: step_AtomicLocal_accounted)
next
  case (AtomicAdjustLink i)
  with assms show ?thesis by (simp add: step_AtomicAdjustLink_accounted)
next
  case (AtomicRecycled src)
  with assms show ?thesis by (simp add: step_AtomicRecycled_accounted)
next
  case (AtomicDtor j)
  with assms show ?thesis by (simp add: step_AtomicDtor_accounted)
next
  case (AtomicSwap j k)
  with assms show ?thesis by (simp add: step_AtomicSwap_accounted)
next
  case (Cas j i k)
  with assms show ?thesis by (simp add: step_Cas_accounted)
qed

lemma accounted_world0: "accounted world0"
  by (simp add: accounted_def accounted_at_def world0_def nlocals_def natomics_def tally_Nil)

lemma run_accounted:
  "accounted w \<Longrightarrow> run os w = Some (Inr w') \<Longrightarrow> accounted w'"
proof (induction os arbitrary: w)
  case Nil
  then show ?case by simp
next
  case (Cons o' os)
  from Cons.prems(2) obtain w1 where s: "step o' w = Some (Inr w1)" and r: "run os w1 = Some (Inr w')"
    by (auto split: option.splits sum.splits)
  from step_accounted [OF Cons.prems(1) s] have "accounted w1" .
  from Cons.IH [OF this r] show ?case .
qed

subsection \<open>No step reaches a freed block\<close>

lemma step_fault:
  assumes "accounted w" "step o' w = Some (Inl f)"
  shows "f = NullDeref \<and> (\<exists>i p. o' = SetPool i p \<and> local_at w i = Some \<lparr>refptr = 0\<rparr>)"
proof (cases o')
  case (LocalObj a obj)
  with assms(2) show ?thesis
    by (simp add: step_def local_ptr_obj_def Let_def split: if_splits)
next
  case (LocalCopy i)
  with assms(2) obtain src where src: "local_at w i = Some src"
    by (auto simp: step_def split: option.splits)
  show ?thesis
  proof (cases "refptr src = 0")
    case True
    with assms(2) LocalCopy src show ?thesis by (simp add: step_def local_ptr_copy_def)
  next
    case False
    from local_live [OF assms(1) src False] obtain b where "blocks w (refptr src) = Some b"
      by blast
    with assms(2) LocalCopy src False show ?thesis
      by (simp add: step_def local_ptr_copy_def adjust_nil deref_live)
  qed
next
  case (LocalAtomic j)
  with assms(2) show ?thesis
    by (simp add: step_def local_ptr_atomic_def getrefptr_nil split: option.splits)
next
  case (LocalRecycled src)
  show ?thesis
  proof (cases "src = 0")
    case True
    with assms(2) LocalRecycled show ?thesis by (simp add: step_def local_ptr_recycled_def)
  next
    case False
    with assms(2) LocalRecycled have p: "src \<in> pooled w" by (simp add: step_def split: if_splits)
    from pooled_block [OF assms(1) False p] obtain b where "blocks w src = Some b" by blast
    with assms(2) LocalRecycled False p show ?thesis
      by (simp add: step_def local_ptr_recycled_def deref_live Let_def)
  qed
next
  case (LocalDtor i)
  with assms(2) obtain this where lp: "local_at w i = Some this"
    by (auto simp: step_def split: option.splits)
  show ?thesis
  proof (cases "refptr this = 0")
    case True
    with assms(2) LocalDtor lp show ?thesis by (simp add: step_def local_ptr_dtor_def)
  next
    case False
    from local_live [OF assms(1) lp False] obtain b where b: "blocks w (refptr this) = Some b"
      by blast
    from local_ptr_dtor_result [of "blocks w" this b "[]"] b False
    obtain r where "local_ptr_dtor this [] (blocks w) = Inr r"
      by (auto simp: deref_live)
    with assms(2) LocalDtor lp show ?thesis by (simp add: step_def split: prod.splits)
  qed
next
  case (LocalSwap i k)
  with assms(2) show ?thesis
    by (simp add: step_def local_ptr_swap_def Let_def split: option.splits)
next
  case (SetPool i p)
  with assms(2) obtain this where lp: "local_at w i = Some this"
    by (auto simp: step_def split: option.splits)
  show ?thesis
  proof (cases "refptr this = 0")
    case True
    then have "this = \<lparr>refptr = 0\<rparr>" by (cases this) simp
    with assms(2) SetPool lp show ?thesis by (simp add: step_def setPool_def deref_def)
  next
    case False
    from local_live [OF assms(1) lp False] obtain b where "blocks w (refptr this) = Some b"
      by blast
    with assms(2) SetPool lp False show ?thesis
      by (simp add: step_def setPool_def deref_live)
  qed
next
  case (AtomicObj a obj)
  with assms(2) show ?thesis
    by (simp add: step_def atomic_ptr_obj_def split: if_splits)
next
  case (AtomicLocal i)
  with assms(2) obtain src where src: "local_at w i = Some src"
    by (auto simp: step_def split: option.splits)
  show ?thesis
  proof (cases "refptr src = 0")
    case True
    with assms(2) AtomicLocal src show ?thesis by (simp add: step_def atomic_ptr_local_def)
  next
    case False
    from local_live [OF assms(1) src False] obtain b where "blocks w (refptr src) = Some b"
      by blast
    with assms(2) AtomicLocal src False show ?thesis
      by (simp add: step_def atomic_ptr_local_def adjust_nil deref_live)
  qed
next
  case (AtomicAdjustLink i)
  with assms(2) obtain p where p: "local_at w i = Some p"
    by (auto simp: step_def split: option.splits)
  show ?thesis
  proof (cases "refptr p = 0")
    case True
    with assms(2) AtomicAdjustLink p show ?thesis
      by (simp add: step_def atomic_ptr_adjust_link_def)
  next
    case False
    from local_live [OF assms(1) p False] obtain b where "blocks w (refptr p) = Some b"
      by blast
    with assms(2) AtomicAdjustLink p False show ?thesis
      by (simp add: step_def atomic_ptr_adjust_link_def adjust_nil deref_live)
  qed
next
  case (AtomicRecycled src)
  show ?thesis
  proof (cases "src = 0")
    case True
    with assms(2) AtomicRecycled show ?thesis by (simp add: step_def atomic_ptr_recycled_def)
  next
    case False
    with assms(2) AtomicRecycled have p: "src \<in> pooled w"
      by (simp add: step_def split: if_splits)
    from pooled_block [OF assms(1) False p] obtain b where "blocks w src = Some b" by blast
    with assms(2) AtomicRecycled False p show ?thesis
      by (simp add: step_def atomic_ptr_recycled_def deref_live Let_def)
  qed
next
  case (AtomicDtor j)
  with assms(2) obtain this where ap: "atomic_at w j = Some this"
    by (auto simp: step_def split: option.splits)
  show ?thesis
  proof (cases "ref_ptr (xxx this) = 0")
    case True
    with assms(2) AtomicDtor ap show ?thesis by (simp add: step_def atomic_ptr_dtor_def)
  next
    case False
    from atomic_live [OF assms(1) ap False] obtain b where
      b: "blocks w (ref_ptr (xxx this)) = Some b" by blast
    from atomic_ptr_dtor_result [of "blocks w" this b "[]"] b False
    obtain r where "atomic_ptr_dtor this [] (blocks w) = Inr r"
      by (auto simp: deref_live)
    with assms(2) AtomicDtor ap show ?thesis by (simp add: step_def split: prod.splits)
  qed
next
  case (AtomicSwap j k)
  with assms(2) show ?thesis
    by (simp add: step_def swap_nil split: option.splits if_splits)
next
  case (Cas j i k)
  with assms(2) show ?thesis
    by (simp add: step_def cas_nil split: option.splits if_splits)
qed

subsection \<open>The events of a step\<close>

lemma adjust_alloc:
  assumes "adjust a xe xr env h = Inr (h', rc)" "h x = Some y"
  shows "\<exists>y'. h' x = Some y'"
proof (cases "deref h a")
  case (Inl f)
  with assms show ?thesis by (simp add: adjust_fault)
next
  case (Inr b)
  from adjust_result [OF Inr, of env xe xr] assms
  obtain c where "h' = h(a \<mapsto> b\<lparr>count := c\<rparr>)" by auto
  with assms(2) show ?thesis by simp
qed

lemma local_ptr_copy_alloc:
  "local_ptr_copy src env h = Inr (h', p) \<Longrightarrow> h x = Some y \<Longrightarrow> \<exists>y'. h' x = Some y'"
  by (auto simp: local_ptr_copy_def split: if_splits sum.splits dest: adjust_alloc)

lemma atomic_ptr_local_alloc:
  "atomic_ptr_local src env h = Inr (h', s) \<Longrightarrow> h x = Some y \<Longrightarrow> \<exists>y'. h' x = Some y'"
  by (auto simp: atomic_ptr_local_def split: if_splits sum.splits dest: adjust_alloc)

lemma atomic_ptr_adjust_link_alloc:
  "atomic_ptr_adjust_link p env h = Inr (h', s) \<Longrightarrow> h x = Some y \<Longrightarrow> \<exists>y'. h' x = Some y'"
  by (auto simp: atomic_ptr_adjust_link_def split: if_splits sum.splits dest: adjust_alloc)

lemma local_ptr_recycled_alloc:
  "local_ptr_recycled src h = Inr (h', p) \<Longrightarrow> h x = Some y \<Longrightarrow> \<exists>y'. h' x = Some y'"
  by (auto simp: local_ptr_recycled_def deref_Inr Let_def split: if_splits sum.splits)

lemma atomic_ptr_recycled_alloc:
  "atomic_ptr_recycled src h = Inr (h', s) \<Longrightarrow> h x = Some y \<Longrightarrow> \<exists>y'. h' x = Some y'"
  by (auto simp: atomic_ptr_recycled_def deref_Inr Let_def split: if_splits sum.splits)

lemma setPool_alloc:
  "setPool this p h = Inr h' \<Longrightarrow> h x = Some y \<Longrightarrow> \<exists>y'. h' x = Some y'"
  by (auto simp: setPool_def deref_Inr split: sum.splits if_splits)

lemma pool_puts_append: "pool_puts (xs @ ys) = pool_puts xs \<union> pool_puts ys"
  by (induction xs rule: pool_puts.induct) simp_all

lemma released_append: "released (xs @ ys) = released xs @ released ys"
  by (induction xs rule: released.induct) simp_all

lemma no_release:
  assumes "trace w' = trace w" "\<And>a. live w a \<Longrightarrow> live w' a"
  shows "\<exists>evs. trace w' = trace w @ evs \<and> length (released evs) \<le> 1 \<and>
           (\<forall>a. (a \<in> set (released evs)) = (live w a \<and> \<not> live w' a))"
  using assms by (intro exI [of _ "[]"]) auto

lemma one_release:
  assumes "trace w' = trace w @ evs" "released evs = [p]" "live w p" "\<not> live w' p"
    "\<And>a. a \<noteq> p \<Longrightarrow> live w a \<Longrightarrow> live w' a"
  shows "\<exists>evs. trace w' = trace w @ evs \<and> length (released evs) \<le> 1 \<and>
           (\<forall>a. (a \<in> set (released evs)) = (live w a \<and> \<not> live w' a))"
  using assms by (intro exI [of _ evs]) auto

lemma step_events:
  assumes "accounted w" "step o' w = Some (Inr w')"
  shows "\<exists>evs. trace w' = trace w @ evs \<and> length (released evs) \<le> 1 \<and>
           (\<forall>a. (a \<in> set (released evs)) = (live w a \<and> \<not> live w' a))"
proof (cases o')
  case (LocalObj a obj)
  with assms(2) show ?thesis
    by (intro no_release)
       (auto simp: step_def local_ptr_obj_def live_def Let_def split: if_splits)
next
  case (LocalCopy i)
  with assms(2) show ?thesis
    by (intro no_release)
       (auto simp: step_def live_def split: option.splits sum.splits intro: local_ptr_copy_alloc)
next
  case (LocalAtomic j)
  with assms(2) show ?thesis
    by (intro no_release)
       (auto simp: step_def live_def local_ptr_atomic_def getrefptr_nil split: option.splits)
next
  case (LocalRecycled src)
  with assms(2) show ?thesis
    by (intro no_release)
       (auto simp: step_def live_def split: if_splits sum.splits intro: local_ptr_recycled_alloc)
next
  case (LocalDtor i)
  with assms(2) obtain this where lp: "local_at w i = Some this"
    by (auto simp: step_def split: option.splits)
  show ?thesis
  proof (cases "refptr this = 0")
    case True
    with assms(2) LocalDtor lp show ?thesis
      by (intro no_release) (auto simp: step_def local_ptr_dtor_def live_def)
  next
    case False
    from local_live [OF assms(1) lp False] obtain b where
      b: "blocks w (refptr this) = Some b" "refptr this \<notin> pooled w"
      by blast
    from b have l: "live w (refptr this)" by (simp add: live_def)
    define c' where "c' = \<lparr>ecount = ecount (count b) + - 1, rcount = rcount (count b) + 0\<rparr>"
    from local_ptr_dtor_result [of "blocks w" this b "[]"] b(1) False
    have d: "local_ptr_dtor this [] (blocks w) =
           Inr (if zero_pair c'
                then (if pool b = 0
                      then ((blocks w)(refptr this := None),
                            (if ptr b \<noteq> 0 then [PayloadDeleted (ptr b)] else []) @
                            [BlockFreed (refptr this)])
                      else ((blocks w)(refptr this \<mapsto> b\<lparr>count := c'\<rparr>),
                            [PoolPut (pool b) (refptr this)]))
                else ((blocks w)(refptr this \<mapsto> b\<lparr>count := c'\<rparr>), []))"
      by (simp add: deref_live c'_def Let_def)
    show ?thesis
    proof (cases "zero_pair c'")
      case True
      show ?thesis
      proof (cases "pool b = 0")
        case p0: True
        with assms(2) LocalDtor lp d True l show ?thesis
          by (intro one_release [where p = "refptr this"
                and evs = "(if ptr b \<noteq> 0 then [PayloadDeleted (ptr b)] else []) @
                            [BlockFreed (refptr this)]"])
             (auto simp: step_def live_def pool_puts_append released_append split: if_splits)
      next
        case p1: False
        with assms(2) LocalDtor lp d True l show ?thesis
          by (intro one_release [where p = "refptr this"
                and evs = "[PoolPut (pool b) (refptr this)]"])
             (auto simp: step_def live_def pool_puts_append released_append split: if_splits)
      qed
    next
      case nz: False
      with assms(2) LocalDtor lp d b show ?thesis
        by (intro no_release) (auto simp: step_def live_def)
    qed
  qed
next
  case (LocalSwap i k)
  with assms(2) show ?thesis
    by (intro no_release)
       (auto simp: step_def live_def local_ptr_swap_def Let_def split: option.splits)
next
  case (SetPool i p)
  with assms(2) show ?thesis
    by (intro no_release)
       (auto simp: step_def live_def split: option.splits sum.splits intro: setPool_alloc)
next
  case (AtomicObj a obj)
  with assms(2) show ?thesis
    by (intro no_release)
       (auto simp: step_def atomic_ptr_obj_def live_def split: if_splits)
next
  case (AtomicLocal i)
  with assms(2) show ?thesis
    by (intro no_release)
       (auto simp: step_def live_def split: option.splits sum.splits intro: atomic_ptr_local_alloc)
next
  case (AtomicAdjustLink i)
  with assms(2) show ?thesis
    by (intro no_release)
       (auto simp: step_def live_def split: option.splits sum.splits intro: atomic_ptr_adjust_link_alloc)
next
  case (AtomicRecycled src)
  with assms(2) show ?thesis
    by (intro no_release)
       (auto simp: step_def live_def split: if_splits sum.splits intro: atomic_ptr_recycled_alloc)
next
  case (AtomicDtor j)
  with assms(2) obtain this where ap: "atomic_at w j = Some this"
    by (auto simp: step_def split: option.splits)
  show ?thesis
  proof (cases "ref_ptr (xxx this) = 0")
    case True
    with assms(2) AtomicDtor ap show ?thesis
      by (intro no_release) (auto simp: step_def atomic_ptr_dtor_def live_def)
  next
    case False
    from atomic_live [OF assms(1) ap False] obtain b where
      b: "blocks w (ref_ptr (xxx this)) = Some b" "ref_ptr (xxx this) \<notin> pooled w"
      by blast
    from b have l: "live w (ref_ptr (xxx this))" by (simp add: live_def)
    define c' where "c' = \<lparr>ecount = ecount (count b) + ref_ecount (xxx this),
                           rcount = rcount (count b) + - 1\<rparr>"
    from atomic_ptr_dtor_result [of "blocks w" this b "[]"] b(1) False
    have d: "atomic_ptr_dtor this [] (blocks w) =
           Inr (if zero_pair c'
                then (if pool b = 0
                      then ((blocks w)(ref_ptr (xxx this) := None),
                            (if ptr b \<noteq> 0 then [PayloadDeleted (ptr b)] else []) @
                            [BlockFreed (ref_ptr (xxx this))])
                      else ((blocks w)(ref_ptr (xxx this) \<mapsto> b\<lparr>count := c'\<rparr>),
                            [PoolPut (pool b) (ref_ptr (xxx this))]))
                else ((blocks w)(ref_ptr (xxx this) \<mapsto> b\<lparr>count := c'\<rparr>), []))"
      by (simp add: deref_live c'_def Let_def)
    show ?thesis
    proof (cases "zero_pair c'")
      case True
      show ?thesis
      proof (cases "pool b = 0")
        case p0: True
        with assms(2) AtomicDtor ap d True l show ?thesis
          by (intro one_release [where p = "ref_ptr (xxx this)"
                and evs = "(if ptr b \<noteq> 0 then [PayloadDeleted (ptr b)] else []) @
                            [BlockFreed (ref_ptr (xxx this))]"])
             (auto simp: step_def live_def pool_puts_append released_append split: if_splits)
      next
        case p1: False
        with assms(2) AtomicDtor ap d True l show ?thesis
          by (intro one_release [where p = "ref_ptr (xxx this)"
                and evs = "[PoolPut (pool b) (ref_ptr (xxx this))]"])
             (auto simp: step_def live_def pool_puts_append released_append split: if_splits)
      qed
    next
      case nz: False
      with assms(2) AtomicDtor ap d b show ?thesis
        by (intro no_release) (auto simp: step_def live_def)
    qed
  qed
next
  case (AtomicSwap j k)
  with assms(2) show ?thesis
    by (intro no_release)
       (auto simp: step_def live_def swap_nil split: option.splits if_splits)
next
  case (Cas j i k)
  with assms(2) show ?thesis
    by (intro no_release)
       (auto simp: step_def live_def cas_nil split: option.splits if_splits)
qed

lemma refcount_same: "\<lparr>ecount = ecount c, rcount = rcount c\<rparr> = c"
  by (cases c) simp

lemmas step_eval = step_def local_at_def atomic_at_def local_ptr_obj_def local_ptr_copy_def
  local_ptr_atomic_def local_ptr_recycled_def local_ptr_dtor_def local_ptr_swap_def setPool_def
  atomic_ptr_obj_def atomic_ptr_local_def atomic_ptr_adjust_link_def atomic_ptr_recycled_def
  atomic_ptr_dtor_def adjust_nil getrefptr_nil swap_nil cas_nil deref_def destroy_or_recycle_def
  delete_ref_def atomic_ptr_ref_ctor_def world0_def Let_def

lemmas count_eval = nlocals_def natomics_def eph_out_def tally_def live_def zero_pair_def

lemma atomic_ptr_adjust_link_result:
  assumes "deref h p = Inr b"
  shows "\<exists>c \<in> set (count b # env).
           atomic_ptr_adjust_link p env h =
             Inr (h(p \<mapsto> b\<lparr>count := \<lparr>ecount = ecount c + - 1, rcount = rcount c + 1\<rparr>\<rparr>),
                  \<lparr>xxx = \<lparr>ref_ecount = 0, ref_ptr = p\<rparr>\<rparr>)"
proof -
  from assms have "p \<noteq> 0" by (simp add: deref_Inr)
  with adjust_result [OF assms, of env "- 1" 1] show ?thesis
    by (auto simp: atomic_ptr_adjust_link_def)
qed

lemma step_LocalAtomic:
  "atomic_at w j = Some s \<Longrightarrow>
   step (LocalAtomic j) w =
     Some (Inr (w\<lparr>atomics := (atomics w)[j := Some \<lparr>xxx = \<lparr>ref_ecount = ref_ecount (xxx s) + 1,
                                                          ref_ptr = ref_ptr (xxx s)\<rparr>\<rparr>],
                  locals := locals w @ [Some \<lparr>refptr = ref_ptr (xxx s)\<rparr>]\<rparr>))"
  by (simp add: step_def local_ptr_atomic_def getrefptr_nil)

subsection \<open>The pool hook of a block\<close>

lemma adjust_pool:
  assumes "adjust a xe xr env h = Inr (h', rc)" "h' x = Some b'"
  shows "\<exists>b. h x = Some b \<and> pool b' = pool b"
proof (cases "deref h a")
  case (Inl f)
  with assms show ?thesis by (simp add: adjust_fault)
next
  case (Inr b)
  from adjust_result [OF Inr, of env xe xr] assms(1)
  obtain c where "h' = h(a \<mapsto> b\<lparr>count := c\<rparr>)" by auto
  moreover from Inr have "h a = Some b" by (simp add: deref_Inr)
  ultimately show ?thesis using assms(2) by (cases "x = a") auto
qed

lemma destroy_or_recycle_pool:
  "destroy_or_recycle a h = Inr (h', evs) \<Longrightarrow> h' x = Some b' \<Longrightarrow> h x = Some b'"
  by (auto simp: destroy_or_recycle_def delete_ref_def split: sum.splits if_splits)

lemma local_ptr_dtor_pool:
  assumes "local_ptr_dtor this env h = Inr (h', evs)" "h' x = Some b'"
  shows "\<exists>b. h x = Some b \<and> pool b' = pool b"
proof (cases "refptr this = 0")
  case True
  with assms show ?thesis by (simp add: local_ptr_dtor_def)
next
  case False
  with assms(1) obtain h1 rc where a: "adjust (refptr this) (- 1) 0 env h = Inr (h1, rc)"
    and r: "(if rc = 0 then destroy_or_recycle (refptr this) h1 else Inr (h1, [])) = Inr (h', evs)"
    by (auto simp: local_ptr_dtor_def split: sum.splits)
  from r assms(2) have "h1 x = Some b'"
    by (auto split: if_splits dest: destroy_or_recycle_pool)
  with a show ?thesis by (rule adjust_pool)
qed

lemma atomic_ptr_dtor_pool:
  assumes "atomic_ptr_dtor this env h = Inr (h', evs)" "h' x = Some b'"
  shows "\<exists>b. h x = Some b \<and> pool b' = pool b"
proof (cases "ref_ptr (xxx this) = 0")
  case True
  with assms show ?thesis by (simp add: atomic_ptr_dtor_def)
next
  case False
  with assms(1) obtain h1 rc where
    a: "adjust (ref_ptr (xxx this)) (ref_ecount (xxx this)) (- 1) env h = Inr (h1, rc)"
    and r: "(if rc = 0 then destroy_or_recycle (ref_ptr (xxx this)) h1 else Inr (h1, [])) =
              Inr (h', evs)"
    by (auto simp: atomic_ptr_dtor_def split: sum.splits)
  from r assms(2) have "h1 x = Some b'"
    by (auto split: if_splits dest: destroy_or_recycle_pool)
  with a show ?thesis by (rule adjust_pool)
qed

lemma step_pool:
  assumes "step o' w = Some (Inr w')" "blocks w' a = Some b'"
  shows "pool b' =
           (case blocks w a of
              None \<Rightarrow> 0
            | Some b \<Rightarrow>
                (case o' of
                   SetPool i p \<Rightarrow> if map_option refptr (local_at w i) = Some a then p else pool b
                 | _ \<Rightarrow> pool b))"
proof (cases o')
  case (LocalObj x obj)
  with assms show ?thesis
    by (auto simp: step_def local_ptr_obj_def atomic_ptr_ref_ctor_def Let_def
        split: if_splits option.splits)
next
  case (LocalCopy i)
  with assms show ?thesis
    by (auto simp: step_def local_ptr_copy_def split: option.splits sum.splits if_splits
        dest: adjust_pool)
next
  case (LocalAtomic j)
  with assms show ?thesis
    by (auto simp: step_def local_ptr_atomic_def getrefptr_nil split: option.splits)
next
  case (LocalRecycled src)
  with assms show ?thesis
    by (auto simp: step_def local_ptr_recycled_def deref_Inr Let_def
        split: option.splits sum.splits if_splits)
next
  case (LocalDtor i)
  with assms show ?thesis
    by (auto simp: step_def split: option.splits sum.splits dest: local_ptr_dtor_pool)
next
  case (LocalSwap i k)
  with assms show ?thesis
    by (auto simp: step_def local_ptr_swap_def Let_def split: option.splits)
next
  case (SetPool i p)
  with assms show ?thesis
    by (auto simp: step_def setPool_def deref_Inr split: option.splits sum.splits if_splits)
next
  case (AtomicObj x obj)
  with assms show ?thesis
    by (auto simp: step_def atomic_ptr_obj_def atomic_ptr_ref_ctor_def
        split: if_splits option.splits)
next
  case (AtomicLocal i)
  with assms show ?thesis
    by (auto simp: step_def atomic_ptr_local_def split: option.splits sum.splits if_splits
        dest: adjust_pool)
next
  case (AtomicAdjustLink i)
  with assms show ?thesis
    by (auto simp: step_def atomic_ptr_adjust_link_def split: option.splits sum.splits if_splits
        dest: adjust_pool)
next
  case (AtomicRecycled src)
  with assms show ?thesis
    by (auto simp: step_def atomic_ptr_recycled_def deref_Inr Let_def
        split: option.splits sum.splits if_splits)
next
  case (AtomicDtor j)
  with assms show ?thesis
    by (auto simp: step_def split: option.splits sum.splits dest: atomic_ptr_dtor_pool)
next
  case (AtomicSwap j k)
  with assms show ?thesis
    by (auto simp: step_def swap_nil split: option.splits if_splits)
next
  case (Cas j i k)
  with assms show ?thesis
    by (auto simp: step_def cas_nil split: option.splits if_splits)
qed

section \<open>The claims\<close>

subsection \<open>C1\<close>

text \<open>
  C1, as amended.  The constructor of a \<open>local_ptr\<close> from an \<open>atomic_ptr\<close>, whatever
  other threads do to the slot meanwhile, adds one to the ephemeral count of one of the
  pairs \<open>v\<close> the slot had and takes the block pointer of \<open>v\<close>; it does not touch the
  heap: as a step of a program it changes the slot and adds the \<open>local_ptr\<close>, and the
  blocks are as before.  The destructor of a \<open>local_ptr\<close> on an allocated block takes one
  from the ephemeral count of the block and leaves its reference count.  Only the
  copy constructor of \<open>atomic_ptr\<close> goes on, after its \<open>getrefptr\<close>, with
  \<open>adjust(-1, +1)\<close> on the block.
\<close>

theorem pin_counts_in_slot_and_release_drops_ephemeral:
  "(\<exists>v \<in> set (xxx src # env).
      local_ptr_atomic src env =
        (\<lparr>xxx = \<lparr>ref_ecount = ref_ecount v + 1, ref_ptr = ref_ptr v\<rparr>\<rparr>, \<lparr>refptr = ref_ptr v\<rparr>)) \<and>
   (atomic_at w j = Some s \<longrightarrow>
      step (LocalAtomic j) w =
        Some (Inr (w\<lparr>atomics := (atomics w)[j := Some \<lparr>xxx = \<lparr>ref_ecount = ref_ecount (xxx s) + 1,
                                                             ref_ptr = ref_ptr (xxx s)\<rparr>\<rparr>],
                     locals := locals w @ [Some \<lparr>refptr = ref_ptr (xxx s)\<rparr>]\<rparr>))) \<and>
   (deref h (refptr p) = Inr b \<longrightarrow>
      (\<exists>c \<in> set (count b # env').
         local_ptr_dtor p env' h =
           Inr (let c' = \<lparr>ecount = ecount c + - 1, rcount = rcount c + 0\<rparr>
                in if zero_pair c'
                   then (if pool b = 0
                         then (h(refptr p := None),
                               (if ptr b \<noteq> 0 then [PayloadDeleted (ptr b)] else []) @
                               [BlockFreed (refptr p)])
                         else (h(refptr p \<mapsto> b\<lparr>count := c'\<rparr>), [PoolPut (pool b) (refptr p)]))
                   else (h(refptr p \<mapsto> b\<lparr>count := c'\<rparr>), [])))) \<and>
   (deref h q = Inr b' \<longrightarrow>
      (\<exists>c \<in> set (count b' # env').
         atomic_ptr_adjust_link q env' h =
           Inr (h(q \<mapsto> b'\<lparr>count := \<lparr>ecount = ecount c + - 1, rcount = rcount c + 1\<rparr>\<rparr>),
                \<lparr>xxx = \<lparr>ref_ecount = 0, ref_ptr = q\<rparr>\<rparr>)))"
  using local_ptr_atomic_result [of src env] step_LocalAtomic [of w j s]
    local_ptr_dtor_result [of h p b env'] atomic_ptr_adjust_link_result [of h q b' env']
  by blast

text \<open>Another thread pins the slot first (its ephemeral count is 4 at the
  compare-and-swap): the pin makes it 5.  Releasing a \<open>local_ptr\<close> on a block with the
  pair (0,1) leaves (-1,1).\<close>

theorem pin_counts_in_slot_and_release_drops_ephemeral_witness:
  "local_ptr_atomic \<lparr>xxx = \<lparr>ref_ecount = 3, ref_ptr = 1\<rparr>\<rparr> [\<lparr>ref_ecount = 4, ref_ptr = 1\<rparr>] =
     (\<lparr>xxx = \<lparr>ref_ecount = 5, ref_ptr = 1\<rparr>\<rparr>, \<lparr>refptr = 1\<rparr>) \<and>
   step (LocalAtomic 0)
     \<lparr>blocks = (\<lambda>a. None)(1 \<mapsto> \<lparr>count = \<lparr>ecount = 0, rcount = 1\<rparr>, ptr = 7,
                                 pool = 0, next_ref = 0\<rparr>),
      locals = [], atomics = [Some \<lparr>xxx = \<lparr>ref_ecount = 0, ref_ptr = 1\<rparr>\<rparr>],
      trace = [], pooled = {}\<rparr> =
     Some (Inr \<lparr>blocks = (\<lambda>a. None)(1 \<mapsto> \<lparr>count = \<lparr>ecount = 0, rcount = 1\<rparr>, ptr = 7,
                                             pool = 0, next_ref = 0\<rparr>),
                locals = [Some \<lparr>refptr = 1\<rparr>],
                atomics = [Some \<lparr>xxx = \<lparr>ref_ecount = 1, ref_ptr = 1\<rparr>\<rparr>],
                trace = [], pooled = {}\<rparr>) \<and>
   local_ptr_dtor \<lparr>refptr = 1\<rparr> []
     ((\<lambda>a. None)(1 \<mapsto> \<lparr>count = \<lparr>ecount = 0, rcount = 1\<rparr>, ptr = 7, pool = 0, next_ref = 0\<rparr>)) =
     Inr ((\<lambda>a. None)(1 \<mapsto> \<lparr>count = \<lparr>ecount = - 1, rcount = 1\<rparr>, ptr = 7, pool = 0, next_ref = 0\<rparr>),
          []) \<and>
   atomic_ptr_adjust_link 1 []
     ((\<lambda>a. None)(1 \<mapsto> \<lparr>count = \<lparr>ecount = 0, rcount = 1\<rparr>, ptr = 7, pool = 0, next_ref = 0\<rparr>)) =
     Inr ((\<lambda>a. None)(1 \<mapsto> \<lparr>count = \<lparr>ecount = - 1, rcount = 2\<rparr>, ptr = 7, pool = 0, next_ref = 0\<rparr>),
          \<lparr>xxx = \<lparr>ref_ecount = 0, ref_ptr = 1\<rparr>\<rparr>)"
  using pin_counts_in_slot_and_release_drops_ephemeral
    [where src = "\<lparr>xxx = \<lparr>ref_ecount = 3, ref_ptr = 1\<rparr>\<rparr>" and env = "[\<lparr>ref_ecount = 4, ref_ptr = 1\<rparr>]"
       and w = "\<lparr>blocks = (\<lambda>a. None)(1 \<mapsto> \<lparr>count = \<lparr>ecount = 0, rcount = 1\<rparr>, ptr = 7,
                                             pool = 0, next_ref = 0\<rparr>),
                 locals = [], atomics = [Some \<lparr>xxx = \<lparr>ref_ecount = 0, ref_ptr = 1\<rparr>\<rparr>],
                 trace = [], pooled = {}\<rparr>"
       and j = 0 and s = "\<lparr>xxx = \<lparr>ref_ecount = 0, ref_ptr = 1\<rparr>\<rparr>"
       and h = "(\<lambda>a. None)(1 \<mapsto> \<lparr>count = \<lparr>ecount = 0, rcount = 1\<rparr>, ptr = 7, pool = 0, next_ref = 0\<rparr>)"
       and p = "\<lparr>refptr = 1\<rparr>" and q = 1 and env' = "[]"
       and b = "\<lparr>count = \<lparr>ecount = 0, rcount = 1\<rparr>, ptr = 7, pool = 0, next_ref = 0\<rparr>"
       and b' = "\<lparr>count = \<lparr>ecount = 0, rcount = 1\<rparr>, ptr = 7, pool = 0, next_ref = 0\<rparr>"]
  by (simp add: local_ptr_atomic_def getrefptr_def observe_def getrefptr_loop.simps atomic_cas_def
      deref_def zero_pair_def atomic_at_def)

text \<open>
  C1 as stated fails.  A slot is made on payload 7 and pinned: the block still has the
  pair (0,1) (the migrate step would leave (-1,2)) and the slot holds the ephemeral count
  1.  The pin is released: the block has the pair (-1,1), its reference count as
  before.
\<close>

theorem pin_migrates_counterexample:
  "run [AtomicObj 1 7, LocalAtomic 0] world0 =
     Some (Inr \<lparr>blocks = (\<lambda>a. None)(1 \<mapsto> \<lparr>count = \<lparr>ecount = 0, rcount = 1\<rparr>, ptr = 7,
                                             pool = 0, next_ref = 0\<rparr>),
                locals = [Some \<lparr>refptr = 1\<rparr>],
                atomics = [Some \<lparr>xxx = \<lparr>ref_ecount = 1, ref_ptr = 1\<rparr>\<rparr>],
                trace = [], pooled = {}\<rparr>) \<and>
   run [AtomicObj 1 7, LocalAtomic 0, LocalDtor 0] world0 =
     Some (Inr \<lparr>blocks = (\<lambda>a. None)(1 \<mapsto> \<lparr>count = \<lparr>ecount = - 1, rcount = 1\<rparr>, ptr = 7,
                                             pool = 0, next_ref = 0\<rparr>),
                locals = [None],
                atomics = [Some \<lparr>xxx = \<lparr>ref_ecount = 1, ref_ptr = 1\<rparr>\<rparr>],
                trace = [], pooled = {}\<rparr>)"
  by (simp add: step_eval)

subsection \<open>C2\<close>

text \<open>
  C2, as amended.  For every block and every call \<open>adjust(xe, xr)\<close>, whatever other
  threads do to the pair meanwhile: the successful compare-and-swap finds one of the values
  \<open>c\<close> the pair had, stores \<open>c\<close> with \<open>xe\<close> added to the ephemeral count and \<open>xr\<close>
  added to the reference count (both in that one step), nothing else of the heap
  changes, and the call returns 0 if the new pair is (0,0) and 1 otherwise.
\<close>

theorem adjust_adds_both_and_returns_0_on_zero:
  "deref h this = Inr b \<Longrightarrow>
   \<exists>c \<in> set (count b # env).
     adjust this xe xr env h =
       Inr (h(this \<mapsto> b\<lparr>count := \<lparr>ecount = ecount c + xe, rcount = rcount c + xr\<rparr>\<rparr>),
            if ecount c + xe = 0 \<and> rcount c + xr = 0 then 0 else 1)"
  by (rule adjust_result)

text \<open>A call that another thread disturbs once: the pair was (1,0) when \<open>adjust\<close>
  read it and is (2,0) at the first compare-and-swap, which fails; the second adds to
  (2,0).\<close>

theorem adjust_adds_both_and_returns_0_on_zero_witness:
  "deref ((\<lambda>a. None)(1 \<mapsto> \<lparr>count = \<lparr>ecount = 1, rcount = 0\<rparr>, ptr = 7, pool = 0, next_ref = 0\<rparr>)) 1
     = Inr \<lparr>count = \<lparr>ecount = 1, rcount = 0\<rparr>, ptr = 7, pool = 0, next_ref = 0\<rparr> \<and>
   adjust 1 (- 1) 0 [\<lparr>ecount = 2, rcount = 0\<rparr>]
     ((\<lambda>a. None)(1 \<mapsto> \<lparr>count = \<lparr>ecount = 1, rcount = 0\<rparr>, ptr = 7, pool = 0, next_ref = 0\<rparr>))
     = Inr ((\<lambda>a. None)(1 \<mapsto> \<lparr>count = \<lparr>ecount = 1, rcount = 0\<rparr>, ptr = 7, pool = 0, next_ref = 0\<rparr>), 1)"
  using adjust_adds_both_and_returns_0_on_zero
    [of "(\<lambda>a. None)(1 \<mapsto> \<lparr>count = \<lparr>ecount = 1, rcount = 0\<rparr>, ptr = 7, pool = 0, next_ref = 0\<rparr>)" 1
        "\<lparr>count = \<lparr>ecount = 1, rcount = 0\<rparr>, ptr = 7, pool = 0, next_ref = 0\<rparr>"
        "[\<lparr>ecount = 2, rcount = 0\<rparr>]" "- 1" 0]
  by (simp add: deref_def adjust_def observe_def adjust_loop.simps atomic_cas_def)

text \<open>
  C2 as stated fails: dropping the last share of a block whose pair is (1,0) makes the
  pair (0,0), and the call returns the \<open>int\<close> 0, which is false, not true.
\<close>

theorem adjust_returns_true_on_zero_counterexample:
  "adjust 1 (- 1) 0 []
     ((\<lambda>a. None)(1 \<mapsto> \<lparr>count = \<lparr>ecount = 1, rcount = 0\<rparr>, ptr = 7, pool = 0, next_ref = 0\<rparr>))
     = Inr ((\<lambda>a. None)(1 \<mapsto> \<lparr>count = \<lparr>ecount = 0, rcount = 0\<rparr>, ptr = 7, pool = 0, next_ref = 0\<rparr>), 0)"
  by (simp add: adjust_nil deref_def)

subsection \<open>C3\<close>

text \<open>
  C3.  For every call of \<open>cas\<close>, whatever other threads do to the slot meanwhile: with
  \<open>seen\<close> the pair the last compare-and-swap of the call found in the slot, the call
  returns true iff the block pointer of \<open>seen\<close> is the block pointer of \<open>cmp\<close>, whatever
  the ephemeral count of \<open>seen\<close>; on success the slot holds the pair of \<open>xchg\<close> and
  \<open>xchg\<close> holds \<open>seen\<close>; on failure the slot and \<open>xchg\<close> are as they were.  An
  iteration of the loop whose compare-and-swap fails goes on exactly when the block
  pointer it found is that of \<open>cmp\<close>.
\<close>

theorem cas_succeeds_iff_block_pointer_matches:
  "(\<exists>seen \<in> set (xxx this # env).
      cas this cmp xchg env =
        (if ref_ptr seen = refptr cmp then (True, xchg, \<lparr>xxx = seen\<rparr>, seen)
         else (False, \<lparr>xxx = seen\<rparr>, xchg, seen))) \<and>
   cas_loop x temp c xchgx env' =
     (if x = temp then (True, xchgx, x, x)
      else if c = ref_ptr x
           then cas_loop (fst (observe x env')) x c xchgx (snd (observe x env'))
           else (False, x, xchgx, x))"
proof (rule conjI)
  show "\<exists>seen \<in> set (xxx this # env).
      cas this cmp xchg env =
        (if ref_ptr seen = refptr cmp then (True, xchg, \<lparr>xxx = seen\<rparr>, seen)
         else (False, \<lparr>xxx = seen\<rparr>, xchg, seen))"
    by (rule cas_result)
next
  show "cas_loop x temp c xchgx env' =
     (if x = temp then (True, xchgx, x, x)
      else if c = ref_ptr x
           then cas_loop (fst (observe x env')) x c xchgx (snd (observe x env'))
           else (False, x, xchgx, x))"
  proof (cases "x = temp")
    case True
    then show ?thesis by (simp add: cas_loop_hit)
  next
    case False
    then show ?thesis by (simp add: cas_loop_miss)
  qed
qed

text \<open>Another thread pins the slot (its ephemeral count goes from 0 to 3) before the
  compare-and-swap: the call still succeeds.  Another thread replaces the block: it
  fails.\<close>

theorem cas_succeeds_iff_block_pointer_matches_witness:
  "cas \<lparr>xxx = \<lparr>ref_ecount = 0, ref_ptr = 1\<rparr>\<rparr> \<lparr>refptr = 1\<rparr> \<lparr>xxx = \<lparr>ref_ecount = 0, ref_ptr = 2\<rparr>\<rparr>
       [\<lparr>ref_ecount = 3, ref_ptr = 1\<rparr>]
     = (True, \<lparr>xxx = \<lparr>ref_ecount = 0, ref_ptr = 2\<rparr>\<rparr>, \<lparr>xxx = \<lparr>ref_ecount = 3, ref_ptr = 1\<rparr>\<rparr>,
        \<lparr>ref_ecount = 3, ref_ptr = 1\<rparr>) \<and>
   cas \<lparr>xxx = \<lparr>ref_ecount = 0, ref_ptr = 1\<rparr>\<rparr> \<lparr>refptr = 1\<rparr> \<lparr>xxx = \<lparr>ref_ecount = 0, ref_ptr = 2\<rparr>\<rparr>
       [\<lparr>ref_ecount = 0, ref_ptr = 5\<rparr>]
     = (False, \<lparr>xxx = \<lparr>ref_ecount = 0, ref_ptr = 5\<rparr>\<rparr>, \<lparr>xxx = \<lparr>ref_ecount = 0, ref_ptr = 2\<rparr>\<rparr>,
        \<lparr>ref_ecount = 0, ref_ptr = 5\<rparr>)"
  using cas_succeeds_iff_block_pointer_matches
    [of "\<lparr>xxx = \<lparr>ref_ecount = 0, ref_ptr = 1\<rparr>\<rparr>" "[\<lparr>ref_ecount = 3, ref_ptr = 1\<rparr>]"
        "\<lparr>refptr = 1\<rparr>" "\<lparr>xxx = \<lparr>ref_ecount = 0, ref_ptr = 2\<rparr>\<rparr>"
        "\<lparr>ref_ecount = 3, ref_ptr = 1\<rparr>" "\<lparr>ref_ecount = 0, ref_ptr = 1\<rparr>" 1
        "\<lparr>ref_ecount = 0, ref_ptr = 2\<rparr>" "[]"]
  by (simp add: cas_def observe_def cas_loop.simps atomic_cas_def)

subsection \<open>C4\<close>

text \<open>
  C4, as amended.  In every world a program reaches from the empty one, for every
  allocated block: its reference count is the number of \<open>atomic_ptr\<close> objects that hold
  it, and its ephemeral count together with the ephemeral counts those objects hold is the
  number of \<open>local_ptr\<close> objects that hold it, so ephemeral count + ephemeral counts of
  the slots + reference count is never negative (the ephemeral count of the block alone
  can be); the block is live (allocated, and no pool hook holds it) exactly while its pair
  is not (0,0).  A step destroys or recycles at most one block, and it destroys or recycles
  a block exactly when the block is live before the step and not after it.  No step reaches a
  block that was freed.
\<close>

theorem shares_accounted_and_block_released_once:
  assumes "run os world0 = Some (Inr w)"
  shows "(blocks w a = Some b \<longrightarrow>
            rcount (count b) = natomics w a \<and>
            ecount (count b) + eph_out w a = nlocals w a \<and>
            0 \<le> ecount (count b) + eph_out w a + rcount (count b) \<and>
            live w a = (\<not> zero_pair (count b))) \<and>
         (step o' w = Some (Inr w') \<longrightarrow>
            (\<exists>evs. trace w' = trace w @ evs \<and> length (released evs) \<le> 1 \<and>
                   (\<forall>x. (x \<in> set (released evs)) = (live w x \<and> \<not> live w' x)))) \<and>
         step o' w \<noteq> Some (Inl Dangling)"
proof -
  from run_accounted [OF accounted_world0 assms] have acc: "accounted w" .
  have 1: "rcount (count b) = natomics w a \<and>
            ecount (count b) + eph_out w a = nlocals w a \<and>
            0 \<le> ecount (count b) + eph_out w a + rcount (count b) \<and>
            live w a = (\<not> zero_pair (count b))" if b: "blocks w a = Some b"
  proof -
    from acc have "blocks w 0 = None" by (rule accounted_null)
    with b have "a \<noteq> 0" by (cases "a = 0") simp_all
    with acc have "accounted_at w a" by (rule accounted_atD)
    with b nlocals_nonneg [of w a] natomics_nonneg [of w a] show ?thesis
      by (simp add: accounted_at_def live_def)
  qed
  have 2: "\<exists>evs. trace w' = trace w @ evs \<and> length (released evs) \<le> 1 \<and>
                   (\<forall>x. (x \<in> set (released evs)) = (live w x \<and> \<not> live w' x))"
    if "step o' w = Some (Inr w')"
    using acc that by (rule step_events)
  have 3: "step o' w \<noteq> Some (Inl Dangling)"
    using step_fault [OF acc, of o' Dangling] by auto
  from 1 2 3 show ?thesis by blast
qed

text \<open>A slot is made on payload 7, pinned once, and the pin released: the block is left
  with the pair (-1,1) while the slot holds the ephemeral count 1.  The destructor of the
  slot then brings the pair to (0,0); that step deletes the payload and frees the
  block.\<close>

theorem shares_accounted_and_block_released_once_witness:
  "run [AtomicObj 1 7, LocalAtomic 0, LocalDtor 0] world0 =
     Some (Inr \<lparr>blocks = (\<lambda>a. None)(1 \<mapsto> \<lparr>count = \<lparr>ecount = - 1, rcount = 1\<rparr>, ptr = 7,
                                             pool = 0, next_ref = 0\<rparr>),
                locals = [None],
                atomics = [Some \<lparr>xxx = \<lparr>ref_ecount = 1, ref_ptr = 1\<rparr>\<rparr>],
                trace = [], pooled = {}\<rparr>) \<and>
   natomics
     \<lparr>blocks = (\<lambda>a. None)(1 \<mapsto> \<lparr>count = \<lparr>ecount = - 1, rcount = 1\<rparr>, ptr = 7,
                                 pool = 0, next_ref = 0\<rparr>),
      locals = [None],
      atomics = [Some \<lparr>xxx = \<lparr>ref_ecount = 1, ref_ptr = 1\<rparr>\<rparr>],
      trace = [], pooled = {}\<rparr> 1 = 1 \<and>
   eph_out
     \<lparr>blocks = (\<lambda>a. None)(1 \<mapsto> \<lparr>count = \<lparr>ecount = - 1, rcount = 1\<rparr>, ptr = 7,
                                 pool = 0, next_ref = 0\<rparr>),
      locals = [None],
      atomics = [Some \<lparr>xxx = \<lparr>ref_ecount = 1, ref_ptr = 1\<rparr>\<rparr>],
      trace = [], pooled = {}\<rparr> 1 = 1 \<and>
   nlocals
     \<lparr>blocks = (\<lambda>a. None)(1 \<mapsto> \<lparr>count = \<lparr>ecount = - 1, rcount = 1\<rparr>, ptr = 7,
                                 pool = 0, next_ref = 0\<rparr>),
      locals = [None],
      atomics = [Some \<lparr>xxx = \<lparr>ref_ecount = 1, ref_ptr = 1\<rparr>\<rparr>],
      trace = [], pooled = {}\<rparr> 1 = 0 \<and>
   step (AtomicDtor 0)
     \<lparr>blocks = (\<lambda>a. None)(1 \<mapsto> \<lparr>count = \<lparr>ecount = - 1, rcount = 1\<rparr>, ptr = 7,
                                 pool = 0, next_ref = 0\<rparr>),
      locals = [None],
      atomics = [Some \<lparr>xxx = \<lparr>ref_ecount = 1, ref_ptr = 1\<rparr>\<rparr>],
      trace = [], pooled = {}\<rparr> =
     Some (Inr \<lparr>blocks = (\<lambda>a. None), locals = [None], atomics = [None],
                trace = [PayloadDeleted 7, BlockFreed 1], pooled = {}\<rparr>) \<and>
   released [PayloadDeleted 7, BlockFreed 1] = [1] \<and>
   live
     \<lparr>blocks = (\<lambda>a. None)(1 \<mapsto> \<lparr>count = \<lparr>ecount = - 1, rcount = 1\<rparr>, ptr = 7,
                                 pool = 0, next_ref = 0\<rparr>),
      locals = [None],
      atomics = [Some \<lparr>xxx = \<lparr>ref_ecount = 1, ref_ptr = 1\<rparr>\<rparr>],
      trace = [], pooled = {}\<rparr> 1 \<and>
   \<not> live \<lparr>blocks = (\<lambda>a. None), locals = [None], atomics = [None],
            trace = [PayloadDeleted 7, BlockFreed 1], pooled = {}\<rparr> 1"
  using shares_accounted_and_block_released_once
    [where os = "[AtomicObj 1 7, LocalAtomic 0, LocalDtor 0]"
       and w = "\<lparr>blocks = (\<lambda>a. None)(1 \<mapsto> \<lparr>count = \<lparr>ecount = - 1, rcount = 1\<rparr>, ptr = 7,
                                             pool = 0, next_ref = 0\<rparr>),
                 locals = [None],
                 atomics = [Some \<lparr>xxx = \<lparr>ref_ecount = 1, ref_ptr = 1\<rparr>\<rparr>],
                 trace = [], pooled = {}\<rparr>"
       and a = 1
       and b = "\<lparr>count = \<lparr>ecount = - 1, rcount = 1\<rparr>, ptr = 7, pool = 0, next_ref = 0\<rparr>"
       and o' = "AtomicDtor 0"
       and w' = "\<lparr>blocks = (\<lambda>a. None), locals = [None], atomics = [None],
                  trace = [PayloadDeleted 7, BlockFreed 1], pooled = {}\<rparr>"]
  by (simp add: step_eval count_eval)

text \<open>
  C4 as stated fails.  A slot is made on payload 7 and pinned twice, and both pins are
  released: the block is left with ephemeral count -2 and reference count 1, whose sum
  is negative.  After the first release alone the pair is (-1,1): the sum went from 1 to 0,
  and nothing was destroyed or recycled.
\<close>

theorem block_sum_nonnegative_counterexample:
  "run [AtomicObj 1 7, LocalAtomic 0, LocalAtomic 0, LocalDtor 0, LocalDtor 1] world0 =
     Some (Inr \<lparr>blocks = (\<lambda>a. None)(1 \<mapsto> \<lparr>count = \<lparr>ecount = - 2, rcount = 1\<rparr>, ptr = 7,
                                             pool = 0, next_ref = 0\<rparr>),
                locals = [None, None],
                atomics = [Some \<lparr>xxx = \<lparr>ref_ecount = 2, ref_ptr = 1\<rparr>\<rparr>],
                trace = [], pooled = {}\<rparr>) \<and>
   ecount \<lparr>ecount = - 2, rcount = 1\<rparr> + rcount \<lparr>ecount = - 2, rcount = 1\<rparr> < 0 \<and>
   run [AtomicObj 1 7, LocalAtomic 0, LocalDtor 0] world0 =
     Some (Inr \<lparr>blocks = (\<lambda>a. None)(1 \<mapsto> \<lparr>count = \<lparr>ecount = - 1, rcount = 1\<rparr>, ptr = 7,
                                             pool = 0, next_ref = 0\<rparr>),
                locals = [None],
                atomics = [Some \<lparr>xxx = \<lparr>ref_ecount = 1, ref_ptr = 1\<rparr>\<rparr>],
                trace = [], pooled = {}\<rparr>)"
  by (simp add: step_eval)

subsection \<open>C5\<close>

text \<open>
  C5.  A destructor of a \<open>local_ptr\<close> or of an \<open>atomic_ptr\<close> that holds an allocated
  block, whatever other threads do to the pair meanwhile: with \<open>c'\<close> the pair its
  \<open>adjust\<close> leaves, if \<open>c'\<close> is (0,0) and the pool hook of the block is null, the
  payload is deleted (when there is one) and then the block is freed, once; if \<open>c'\<close> is
  (0,0) and the hook is not null, the hook is called once with the block, which stays
  allocated with its payload; otherwise nothing is destroyed.  All of it happens inside the
  destructor call.
\<close>

theorem zero_release_destroys_or_recycles_once:
  "(deref h (refptr p) = Inr b \<longrightarrow>
      (\<exists>c \<in> set (count b # env).
         local_ptr_dtor p env h =
           Inr (let c' = \<lparr>ecount = ecount c + - 1, rcount = rcount c + 0\<rparr>
                in if zero_pair c'
                   then (if pool b = 0
                         then (h(refptr p := None),
                               (if ptr b \<noteq> 0 then [PayloadDeleted (ptr b)] else []) @
                               [BlockFreed (refptr p)])
                         else (h(refptr p \<mapsto> b\<lparr>count := c'\<rparr>), [PoolPut (pool b) (refptr p)]))
                   else (h(refptr p \<mapsto> b\<lparr>count := c'\<rparr>), [])))) \<and>
   (deref h (ref_ptr (xxx s)) = Inr b' \<longrightarrow>
      (\<exists>c \<in> set (count b' # env).
         atomic_ptr_dtor s env h =
           Inr (let c' = \<lparr>ecount = ecount c + ref_ecount (xxx s), rcount = rcount c + - 1\<rparr>
                in if zero_pair c'
                   then (if pool b' = 0
                         then (h(ref_ptr (xxx s) := None),
                               (if ptr b' \<noteq> 0 then [PayloadDeleted (ptr b')] else []) @
                               [BlockFreed (ref_ptr (xxx s))])
                         else (h(ref_ptr (xxx s) \<mapsto> b'\<lparr>count := c'\<rparr>),
                               [PoolPut (pool b') (ref_ptr (xxx s))]))
                   else (h(ref_ptr (xxx s) \<mapsto> b'\<lparr>count := c'\<rparr>), []))))"
  using local_ptr_dtor_result [of h p b env] atomic_ptr_dtor_result [of h s b' env]
  by blast

text \<open>The last \<open>local_ptr\<close> on a block without a pool hook deletes payload 7 and frees
  block 1; the \<open>atomic_ptr\<close> that holds the last share of a block with the pool hook 9
  (two pins through it were released before) hands block 2 to the hook.\<close>

theorem zero_release_destroys_or_recycles_once_witness:
  "local_ptr_dtor \<lparr>refptr = 1\<rparr> []
     ((\<lambda>a. None)(1 \<mapsto> \<lparr>count = \<lparr>ecount = 1, rcount = 0\<rparr>, ptr = 7, pool = 0, next_ref = 0\<rparr>))
     = Inr (\<lambda>a. None, [PayloadDeleted 7, BlockFreed 1]) \<and>
   atomic_ptr_dtor \<lparr>xxx = \<lparr>ref_ecount = 2, ref_ptr = 2\<rparr>\<rparr> []
     ((\<lambda>a. None)(2 \<mapsto> \<lparr>count = \<lparr>ecount = - 2, rcount = 1\<rparr>, ptr = 8, pool = 9, next_ref = 0\<rparr>))
     = Inr ((\<lambda>a. None)(2 \<mapsto> \<lparr>count = \<lparr>ecount = 0, rcount = 0\<rparr>, ptr = 8, pool = 9, next_ref = 0\<rparr>),
            [PoolPut 9 2])"
proof -
  have 1: "local_ptr_dtor \<lparr>refptr = 1\<rparr> []
     ((\<lambda>a. None)(1 \<mapsto> \<lparr>count = \<lparr>ecount = 1, rcount = 0\<rparr>, ptr = 7, pool = 0, next_ref = 0\<rparr>))
     = Inr (\<lambda>a. None, [PayloadDeleted 7, BlockFreed 1])"
    using zero_release_destroys_or_recycles_once
      [where h = "(\<lambda>a. None)(1 \<mapsto> \<lparr>count = \<lparr>ecount = 1, rcount = 0\<rparr>, ptr = 7, pool = 0, next_ref = 0\<rparr>)"
         and p = "\<lparr>refptr = 1\<rparr>"
         and b = "\<lparr>count = \<lparr>ecount = 1, rcount = 0\<rparr>, ptr = 7, pool = 0, next_ref = 0\<rparr>"
         and env = "[]"]
    by (simp add: deref_def zero_pair_def)
  have 2: "atomic_ptr_dtor \<lparr>xxx = \<lparr>ref_ecount = 2, ref_ptr = 2\<rparr>\<rparr> []
     ((\<lambda>a. None)(2 \<mapsto> \<lparr>count = \<lparr>ecount = - 2, rcount = 1\<rparr>, ptr = 8, pool = 9, next_ref = 0\<rparr>))
     = Inr ((\<lambda>a. None)(2 \<mapsto> \<lparr>count = \<lparr>ecount = 0, rcount = 0\<rparr>, ptr = 8, pool = 9, next_ref = 0\<rparr>),
            [PoolPut 9 2])"
    using zero_release_destroys_or_recycles_once
      [where h = "(\<lambda>a. None)(2 \<mapsto> \<lparr>count = \<lparr>ecount = - 2, rcount = 1\<rparr>, ptr = 8, pool = 9, next_ref = 0\<rparr>)"
         and s = "\<lparr>xxx = \<lparr>ref_ecount = 2, ref_ptr = 2\<rparr>\<rparr>"
         and b' = "\<lparr>count = \<lparr>ecount = - 2, rcount = 1\<rparr>, ptr = 8, pool = 9, next_ref = 0\<rparr>"
         and env = "[]"]
    by (simp add: deref_def zero_pair_def)
  from 1 2 show ?thesis by (rule conjI)
qed

subsection \<open>C6\<close>

text \<open>
  C6.  The constructors from a non-null payload allocate a block and leave its pair at
  (1,0) for a \<open>local_ptr\<close> and at (0,1) for an \<open>atomic_ptr\<close>; the constructors from a
  recycled block set the pair of the block they are given to (1,0) and to (0,1), at the
  address it has, and leave its payload pointer, pool hook and link as they are.
\<close>

theorem constructors_install_owner_pair:
  "(obj \<noteq> 0 \<longrightarrow>
      local_ptr_obj a obj h =
        (h(a \<mapsto> \<lparr>count = \<lparr>ecount = 1, rcount = 0\<rparr>, ptr = obj, pool = 0, next_ref = 0\<rparr>),
         \<lparr>refptr = a\<rparr>) \<and>
      atomic_ptr_obj a obj h =
        (h(a \<mapsto> \<lparr>count = \<lparr>ecount = 0, rcount = 1\<rparr>, ptr = obj, pool = 0, next_ref = 0\<rparr>),
         \<lparr>xxx = \<lparr>ref_ecount = 0, ref_ptr = a\<rparr>\<rparr>)) \<and>
   (deref h src = Inr b \<longrightarrow>
      local_ptr_recycled src h =
        Inr (h(src \<mapsto> b\<lparr>count := \<lparr>ecount = 1, rcount = 0\<rparr>\<rparr>),
             \<lparr>refptr = src\<rparr>) \<and>
      atomic_ptr_recycled src h =
        Inr (h(src \<mapsto> b\<lparr>count := \<lparr>ecount = 0, rcount = 1\<rparr>\<rparr>),
             \<lparr>xxx = \<lparr>ref_ecount = 0, ref_ptr = src\<rparr>\<rparr>))"
proof (intro conjI impI)
  assume "obj \<noteq> 0"
  then show "local_ptr_obj a obj h =
        (h(a \<mapsto> \<lparr>count = \<lparr>ecount = 1, rcount = 0\<rparr>, ptr = obj, pool = 0, next_ref = 0\<rparr>),
         \<lparr>refptr = a\<rparr>)"
    by (simp add: local_ptr_obj_def atomic_ptr_ref_ctor_def Let_def)
next
  assume "obj \<noteq> 0"
  then show "atomic_ptr_obj a obj h =
        (h(a \<mapsto> \<lparr>count = \<lparr>ecount = 0, rcount = 1\<rparr>, ptr = obj, pool = 0, next_ref = 0\<rparr>),
         \<lparr>xxx = \<lparr>ref_ecount = 0, ref_ptr = a\<rparr>\<rparr>)"
    by (simp add: atomic_ptr_obj_def atomic_ptr_ref_ctor_def)
next
  assume d: "deref h src = Inr b"
  then have "src \<noteq> 0" by (simp add: deref_Inr)
  with d show "local_ptr_recycled src h =
        Inr (h(src \<mapsto> b\<lparr>count := \<lparr>ecount = 1, rcount = 0\<rparr>\<rparr>),
             \<lparr>refptr = src\<rparr>)"
    by (simp add: local_ptr_recycled_def Let_def refcount_set_both)
next
  assume d: "deref h src = Inr b"
  then have "src \<noteq> 0" by (simp add: deref_Inr)
  with d show "atomic_ptr_recycled src h =
        Inr (h(src \<mapsto> b\<lparr>count := \<lparr>ecount = 0, rcount = 1\<rparr>\<rparr>),
             \<lparr>xxx = \<lparr>ref_ecount = 0, ref_ptr = src\<rparr>\<rparr>)"
    by (simp add: atomic_ptr_recycled_def Let_def refcount_set_both)
qed

theorem constructors_install_owner_pair_witness:
  "local_ptr_obj 1 7 (\<lambda>a. None) =
     ((\<lambda>a. None)(1 \<mapsto> \<lparr>count = \<lparr>ecount = 1, rcount = 0\<rparr>, ptr = 7, pool = 0, next_ref = 0\<rparr>),
      \<lparr>refptr = 1\<rparr>) \<and>
   atomic_ptr_obj 1 7 (\<lambda>a. None) =
     ((\<lambda>a. None)(1 \<mapsto> \<lparr>count = \<lparr>ecount = 0, rcount = 1\<rparr>, ptr = 7, pool = 0, next_ref = 0\<rparr>),
      \<lparr>xxx = \<lparr>ref_ecount = 0, ref_ptr = 1\<rparr>\<rparr>) \<and>
   local_ptr_recycled 2
     ((\<lambda>a. None)(2 \<mapsto> \<lparr>count = \<lparr>ecount = 0, rcount = 0\<rparr>, ptr = 8, pool = 9, next_ref = 3\<rparr>)) =
     Inr ((\<lambda>a. None)(2 \<mapsto> \<lparr>count = \<lparr>ecount = 1, rcount = 0\<rparr>, ptr = 8, pool = 9, next_ref = 3\<rparr>),
          \<lparr>refptr = 2\<rparr>) \<and>
   atomic_ptr_recycled 2
     ((\<lambda>a. None)(2 \<mapsto> \<lparr>count = \<lparr>ecount = 0, rcount = 0\<rparr>, ptr = 8, pool = 9, next_ref = 3\<rparr>)) =
     Inr ((\<lambda>a. None)(2 \<mapsto> \<lparr>count = \<lparr>ecount = 0, rcount = 1\<rparr>, ptr = 8, pool = 9, next_ref = 3\<rparr>),
          \<lparr>xxx = \<lparr>ref_ecount = 0, ref_ptr = 2\<rparr>\<rparr>)"
proof -
  have 1: "local_ptr_obj 1 7 (\<lambda>a. None) =
     ((\<lambda>a. None)(1 \<mapsto> \<lparr>count = \<lparr>ecount = 1, rcount = 0\<rparr>, ptr = 7, pool = 0, next_ref = 0\<rparr>),
      \<lparr>refptr = 1\<rparr>) \<and>
   atomic_ptr_obj 1 7 (\<lambda>a. None) =
     ((\<lambda>a. None)(1 \<mapsto> \<lparr>count = \<lparr>ecount = 0, rcount = 1\<rparr>, ptr = 7, pool = 0, next_ref = 0\<rparr>),
      \<lparr>xxx = \<lparr>ref_ecount = 0, ref_ptr = 1\<rparr>\<rparr>)"
    using constructors_install_owner_pair [where obj = 7 and a = 1 and h = "\<lambda>a. None"]
    by simp
  have 2: "local_ptr_recycled 2
     ((\<lambda>a. None)(2 \<mapsto> \<lparr>count = \<lparr>ecount = 0, rcount = 0\<rparr>, ptr = 8, pool = 9, next_ref = 3\<rparr>)) =
     Inr ((\<lambda>a. None)(2 \<mapsto> \<lparr>count = \<lparr>ecount = 1, rcount = 0\<rparr>, ptr = 8, pool = 9, next_ref = 3\<rparr>),
          \<lparr>refptr = 2\<rparr>) \<and>
   atomic_ptr_recycled 2
     ((\<lambda>a. None)(2 \<mapsto> \<lparr>count = \<lparr>ecount = 0, rcount = 0\<rparr>, ptr = 8, pool = 9, next_ref = 3\<rparr>)) =
     Inr ((\<lambda>a. None)(2 \<mapsto> \<lparr>count = \<lparr>ecount = 0, rcount = 1\<rparr>, ptr = 8, pool = 9, next_ref = 3\<rparr>),
          \<lparr>xxx = \<lparr>ref_ecount = 0, ref_ptr = 2\<rparr>\<rparr>)"
    using constructors_install_owner_pair
      [where h = "(\<lambda>a. None)(2 \<mapsto> \<lparr>count = \<lparr>ecount = 0, rcount = 0\<rparr>, ptr = 8, pool = 9, next_ref = 3\<rparr>)"
         and src = 2
         and b = "\<lparr>count = \<lparr>ecount = 0, rcount = 0\<rparr>, ptr = 8, pool = 9, next_ref = 3\<rparr>"]
    by (simp add: deref_def)
  from 1 2 show ?thesis by simp
qed

subsection \<open>C7\<close>

text \<open>
  C7, as amended.  For every empty \<open>local_ptr\<close>, \<open>get\<close> and \<open>operator ->\<close> return the
  null payload pointer and fail in no way, and \<open>operator *\<close> applies \<open>*\<close> to that null
  pointer; for every \<open>local_ptr\<close> on an allocated block, \<open>get\<close> and \<open>operator ->\<close>
  yield the payload pointer of the block, and \<open>operator *\<close> the payload it points to.
\<close>

theorem get_returns_null_when_empty:
  "(refptr this = 0 \<longrightarrow>
      get this h = Inr 0 \<and> op_arrow this h = Inr 0 \<and> op_star this h = Inl NullDeref) \<and>
   (deref h (refptr this) = Inr b \<longrightarrow>
      get this h = Inr (ptr b) \<and> op_arrow this h = Inr (ptr b) \<and>
      (ptr b \<noteq> 0 \<longrightarrow> op_star this h = Inr (ptr b)))"
proof (intro conjI impI)
  assume "refptr this = 0"
  then show "get this h = Inr 0" "op_arrow this h = Inr 0" "op_star this h = Inl NullDeref"
    by (simp_all add: get_def op_arrow_def op_star_def)
next
  assume d: "deref h (refptr this) = Inr b"
  then have n: "refptr this \<noteq> 0" by (simp add: deref_Inr)
  from d n show g: "get this h = Inr (ptr b)" by (simp add: get_def)
  then show "op_arrow this h = Inr (ptr b)" by (simp add: op_arrow_def)
  assume "ptr b \<noteq> 0"
  with g show "op_star this h = Inr (ptr b)" by (simp add: op_star_def)
qed

theorem get_returns_null_when_empty_witness:
  "get \<lparr>refptr = 0\<rparr> (\<lambda>a. None) = Inr 0 \<and>
   op_star \<lparr>refptr = 0\<rparr> (\<lambda>a. None) = Inl NullDeref \<and>
   get \<lparr>refptr = 1\<rparr>
     ((\<lambda>a. None)(1 \<mapsto> \<lparr>count = \<lparr>ecount = 1, rcount = 0\<rparr>, ptr = 7, pool = 0, next_ref = 0\<rparr>)) = Inr 7 \<and>
   op_star \<lparr>refptr = 1\<rparr>
     ((\<lambda>a. None)(1 \<mapsto> \<lparr>count = \<lparr>ecount = 1, rcount = 0\<rparr>, ptr = 7, pool = 0, next_ref = 0\<rparr>)) = Inr 7"
proof -
  have 1: "get \<lparr>refptr = 0\<rparr> (\<lambda>a. None) = Inr 0 \<and>
      op_star \<lparr>refptr = 0\<rparr> (\<lambda>a. None) = Inl NullDeref"
    using get_returns_null_when_empty [where this = "\<lparr>refptr = 0\<rparr>" and h = "\<lambda>a. None"]
    by simp
  have 2: "get \<lparr>refptr = 1\<rparr>
     ((\<lambda>a. None)(1 \<mapsto> \<lparr>count = \<lparr>ecount = 1, rcount = 0\<rparr>, ptr = 7, pool = 0, next_ref = 0\<rparr>)) = Inr 7 \<and>
   op_star \<lparr>refptr = 1\<rparr>
     ((\<lambda>a. None)(1 \<mapsto> \<lparr>count = \<lparr>ecount = 1, rcount = 0\<rparr>, ptr = 7, pool = 0, next_ref = 0\<rparr>)) = Inr 7"
    using get_returns_null_when_empty
      [where this = "\<lparr>refptr = 1\<rparr>"
         and h = "(\<lambda>a. None)(1 \<mapsto> \<lparr>count = \<lparr>ecount = 1, rcount = 0\<rparr>, ptr = 7, pool = 0, next_ref = 0\<rparr>)"
         and b = "\<lparr>count = \<lparr>ecount = 1, rcount = 0\<rparr>, ptr = 7, pool = 0, next_ref = 0\<rparr>"]
    by (simp add: deref_def)
  from 1 2 show ?thesis by simp
qed

text \<open>
  C7 as stated fails: on an empty \<open>local_ptr\<close>, \<open>get\<close> and \<open>operator ->\<close> return the
  null payload pointer as an ordinary result.
\<close>

theorem get_fails_when_empty_counterexample:
  "get \<lparr>refptr = 0\<rparr> (\<lambda>a. None) = Inr 0 \<and> op_arrow \<lparr>refptr = 0\<rparr> (\<lambda>a. None) = Inr 0"
  by (simp add: get_def op_arrow_def)

subsection \<open>C8\<close>

text \<open>
  C8.  For every \<open>atomic_ptr\<close> whose block pointer is null (and stays null while the
  operation runs): the \<open>local_ptr\<close> constructed from it is empty; its destructor returns
  with the heap as it was and destroys nothing.  For every \<open>atomic_ptr\<close> and every empty
  \<open>cmp\<close>, \<open>cas\<close> returns true iff the block pointer its last compare-and-swap found
  in the slot is null.
\<close>

theorem null_slot_pins_empty_and_destroys_nothing:
  "(ref_ptr (xxx s) = 0 \<and> (\<forall>v \<in> set env. ref_ptr v = 0) \<longrightarrow>
      refptr (snd (local_ptr_atomic s env)) = 0 \<and>
      fst (cas s \<lparr>refptr = 0\<rparr> xchg env) = True) \<and>
   (refptr cmp = 0 \<longrightarrow>
      (case cas t cmp xchg env' of (rc, t', xchg', seen) \<Rightarrow> rc = (ref_ptr seen = 0))) \<and>
   (ref_ptr (xxx s) = 0 \<longrightarrow> atomic_ptr_dtor s env'' h = Inr (h, []))"
proof (intro conjI impI)
  assume a: "ref_ptr (xxx s) = 0 \<and> (\<forall>v \<in> set env. ref_ptr v = 0)"
  from local_ptr_atomic_result [of src env for src]
  obtain v where v: "v \<in> set (xxx s # env)" "local_ptr_atomic s env =
     (\<lparr>xxx = \<lparr>ref_ecount = ref_ecount v + 1, ref_ptr = ref_ptr v\<rparr>\<rparr>, \<lparr>refptr = ref_ptr v\<rparr>)"
    by blast
  from v(1) a have "ref_ptr v = 0" by auto
  with v(2) show "refptr (snd (local_ptr_atomic s env)) = 0" by simp
next
  assume a: "ref_ptr (xxx s) = 0 \<and> (\<forall>v \<in> set env. ref_ptr v = 0)"
  from cas_result [of s env "\<lparr>refptr = 0\<rparr>" xchg]
  obtain seen where s: "seen \<in> set (xxx s # env)"
    "cas s \<lparr>refptr = 0\<rparr> xchg env =
     (if ref_ptr seen = refptr \<lparr>refptr = 0\<rparr> then (True, xchg, \<lparr>xxx = seen\<rparr>, seen)
      else (False, \<lparr>xxx = seen\<rparr>, xchg, seen))" by blast
  from s(1) a have "ref_ptr seen = 0" by auto
  with s(2) show "fst (cas s \<lparr>refptr = 0\<rparr> xchg env) = True" by simp
next
  assume "refptr cmp = 0"
  with cas_result [of t env' cmp xchg]
  obtain seen where "cas t cmp xchg env' =
     (if ref_ptr seen = 0 then (True, xchg, \<lparr>xxx = seen\<rparr>, seen)
      else (False, \<lparr>xxx = seen\<rparr>, xchg, seen))" by auto
  then show "case cas t cmp xchg env' of (rc, t', xchg', seen) \<Rightarrow> rc = (ref_ptr seen = 0)"
    by simp
next
  assume "ref_ptr (xxx s) = 0"
  then show "atomic_ptr_dtor s env'' h = Inr (h, [])" by (simp add: atomic_ptr_dtor_def)
qed

theorem null_slot_pins_empty_and_destroys_nothing_witness:
  "local_ptr_atomic \<lparr>xxx = \<lparr>ref_ecount = 0, ref_ptr = 0\<rparr>\<rparr> [\<lparr>ref_ecount = 2, ref_ptr = 0\<rparr>] =
     (\<lparr>xxx = \<lparr>ref_ecount = 3, ref_ptr = 0\<rparr>\<rparr>, \<lparr>refptr = 0\<rparr>) \<and>
   fst (cas \<lparr>xxx = \<lparr>ref_ecount = 0, ref_ptr = 0\<rparr>\<rparr> \<lparr>refptr = 0\<rparr>
          \<lparr>xxx = \<lparr>ref_ecount = 0, ref_ptr = 2\<rparr>\<rparr> [\<lparr>ref_ecount = 2, ref_ptr = 0\<rparr>]) = True \<and>
   fst (cas \<lparr>xxx = \<lparr>ref_ecount = 0, ref_ptr = 1\<rparr>\<rparr> \<lparr>refptr = 0\<rparr>
          \<lparr>xxx = \<lparr>ref_ecount = 0, ref_ptr = 2\<rparr>\<rparr> []) = False \<and>
   atomic_ptr_dtor \<lparr>xxx = \<lparr>ref_ecount = 0, ref_ptr = 0\<rparr>\<rparr> [] (\<lambda>a. None) = Inr (\<lambda>a. None, [])"
  using null_slot_pins_empty_and_destroys_nothing
    [where s = "\<lparr>xxx = \<lparr>ref_ecount = 0, ref_ptr = 0\<rparr>\<rparr>" and env = "[\<lparr>ref_ecount = 2, ref_ptr = 0\<rparr>]"
       and xchg = "\<lparr>xxx = \<lparr>ref_ecount = 0, ref_ptr = 2\<rparr>\<rparr>" and cmp = "\<lparr>refptr = 0\<rparr>"
       and t = "\<lparr>xxx = \<lparr>ref_ecount = 0, ref_ptr = 1\<rparr>\<rparr>" and env' = "[]" and env'' = "[]"
       and h = "\<lambda>a. None"]
  by (simp add: local_ptr_atomic_def getrefptr_def observe_def getrefptr_loop.simps
      atomic_cas_def cas_nil)

subsection \<open>C9\<close>

text \<open>
  C9, as amended.  In every world a program reaches from the empty one: pinning an
  \<open>atomic_ptr\<close> that holds a block and destructing the \<open>local_ptr\<close> at once leaves the
  reference count of the block as it was, its ephemeral count one lower and the
  ephemeral count of the slot one higher, so that their sum is as it was; copying a
  \<open>local_ptr\<close> and destructing the copy at once leaves every counter as it was.
  Neither destroys or recycles a block.
\<close>

theorem pin_release_keeps_sums_copy_release_keeps_all:
  assumes "run os world0 = Some (Inr w)"
  shows "(atomic_at w j = Some s \<and> ref_ptr (xxx s) \<noteq> 0 \<longrightarrow>
            (\<exists>b. blocks w (ref_ptr (xxx s)) = Some b \<and>
                 run [LocalAtomic j, LocalDtor (length (locals w))] w =
                   Some (Inr (w\<lparr>blocks := (blocks w)(ref_ptr (xxx s) \<mapsto>
                                   b\<lparr>count := \<lparr>ecount = ecount (count b) - 1,
                                                rcount = rcount (count b)\<rparr>\<rparr>),
                                atomics := (atomics w)[j := Some \<lparr>xxx = \<lparr>ref_ecount = ref_ecount (xxx s) + 1,
                                                                        ref_ptr = ref_ptr (xxx s)\<rparr>\<rparr>],
                                locals := locals w @ [None]\<rparr>)))) \<and>
         (local_at w i = Some p \<longrightarrow>
            run [LocalCopy i, LocalDtor (length (locals w))] w =
              Some (Inr (w\<lparr>locals := locals w @ [None]\<rparr>)))"
proof (intro conjI impI)
  from run_accounted [OF accounted_world0 assms] have acc: "accounted w" .
  {
    assume a: "atomic_at w j = Some s \<and> ref_ptr (xxx s) \<noteq> 0"
    then have s: "atomic_at w j = Some s" and n: "ref_ptr (xxx s) \<noteq> 0" by simp_all
    from atomic_live [OF acc s n] obtain b where
      b: "blocks w (ref_ptr (xxx s)) = Some b" "rcount (count b) = natomics w (ref_ptr (xxx s))"
      by blast
    from natomics_member [OF s] b(2) have r: "rcount (count b) \<noteq> 0" by simp
    have "run [LocalAtomic j, LocalDtor (length (locals w))] w =
                   Some (Inr (w\<lparr>blocks := (blocks w)(ref_ptr (xxx s) \<mapsto>
                                   b\<lparr>count := \<lparr>ecount = ecount (count b) - 1,
                                                rcount = rcount (count b)\<rparr>\<rparr>),
                                atomics := (atomics w)[j := Some \<lparr>xxx = \<lparr>ref_ecount = ref_ecount (xxx s) + 1,
                                                                        ref_ptr = ref_ptr (xxx s)\<rparr>\<rparr>],
                                locals := locals w @ [None]\<rparr>))"
      using s n b(1) r
      by (simp add: step_LocalAtomic)
         (simp add: step_def local_at_def local_ptr_dtor_def adjust_nil deref_live)
    with b(1) show "\<exists>b. blocks w (ref_ptr (xxx s)) = Some b \<and>
                 run [LocalAtomic j, LocalDtor (length (locals w))] w =
                   Some (Inr (w\<lparr>blocks := (blocks w)(ref_ptr (xxx s) \<mapsto>
                                   b\<lparr>count := \<lparr>ecount = ecount (count b) - 1,
                                                rcount = rcount (count b)\<rparr>\<rparr>),
                                atomics := (atomics w)[j := Some \<lparr>xxx = \<lparr>ref_ecount = ref_ecount (xxx s) + 1,
                                                                        ref_ptr = ref_ptr (xxx s)\<rparr>\<rparr>],
                                locals := locals w @ [None]\<rparr>))"
      by blast
  }
  {
    assume p: "local_at w i = Some p"
    show "run [LocalCopy i, LocalDtor (length (locals w))] w =
              Some (Inr (w\<lparr>locals := locals w @ [None]\<rparr>))"
    proof (cases "refptr p = 0")
      case True
      with p show ?thesis
        by (simp add: step_def local_ptr_copy_def)
           (simp add: local_at_def local_ptr_dtor_def)
    next
      case False
      from local_live [OF acc p False] obtain b where
        b: "blocks w (refptr p) = Some b" "\<not> zero_pair (count b)"
        by blast
      from b(1) have same: "(blocks w)(refptr p \<mapsto> b) = blocks w" by (rule fun_upd_idem)
      from p False b show ?thesis
        by (simp add: step_def local_ptr_copy_def adjust_nil deref_live)
           (auto simp: local_at_def local_ptr_dtor_def adjust_nil deref_def zero_pair_def
              refcount_same same)
    qed
  }
qed

text \<open>A world with a slot on block 1 and a \<open>local_ptr\<close> on block 2: pinning the slot
  and releasing the pin leaves block 1 with the pair (-1,1) and the slot with the
  ephemeral count 1; copying the \<open>local_ptr\<close> and destructing the copy leaves
  everything as it was.\<close>

theorem pin_release_keeps_sums_copy_release_keeps_all_witness:
  "run [AtomicObj 1 7, LocalObj 2 8] world0 =
     Some (Inr \<lparr>blocks = (\<lambda>a. None)(1 \<mapsto> \<lparr>count = \<lparr>ecount = 0, rcount = 1\<rparr>, ptr = 7,
                                             pool = 0, next_ref = 0\<rparr>,
                                      2 \<mapsto> \<lparr>count = \<lparr>ecount = 1, rcount = 0\<rparr>, ptr = 8,
                                             pool = 0, next_ref = 0\<rparr>),
                locals = [Some \<lparr>refptr = 2\<rparr>],
                atomics = [Some \<lparr>xxx = \<lparr>ref_ecount = 0, ref_ptr = 1\<rparr>\<rparr>],
                trace = [], pooled = {}\<rparr>) \<and>
   run [LocalAtomic 0, LocalDtor 1]
     \<lparr>blocks = (\<lambda>a. None)(1 \<mapsto> \<lparr>count = \<lparr>ecount = 0, rcount = 1\<rparr>, ptr = 7,
                                             pool = 0, next_ref = 0\<rparr>,
                                      2 \<mapsto> \<lparr>count = \<lparr>ecount = 1, rcount = 0\<rparr>, ptr = 8,
                                             pool = 0, next_ref = 0\<rparr>),
                locals = [Some \<lparr>refptr = 2\<rparr>],
                atomics = [Some \<lparr>xxx = \<lparr>ref_ecount = 0, ref_ptr = 1\<rparr>\<rparr>],
                trace = [], pooled = {}\<rparr> =
     Some (Inr \<lparr>blocks = (\<lambda>a. None)(1 \<mapsto> \<lparr>count = \<lparr>ecount = - 1, rcount = 1\<rparr>, ptr = 7,
                                             pool = 0, next_ref = 0\<rparr>,
                                      2 \<mapsto> \<lparr>count = \<lparr>ecount = 1, rcount = 0\<rparr>, ptr = 8,
                                             pool = 0, next_ref = 0\<rparr>),
                locals = [Some \<lparr>refptr = 2\<rparr>, None],
                atomics = [Some \<lparr>xxx = \<lparr>ref_ecount = 1, ref_ptr = 1\<rparr>\<rparr>],
                trace = [], pooled = {}\<rparr>) \<and>
   run [LocalCopy 0, LocalDtor 1]
     \<lparr>blocks = (\<lambda>a. None)(1 \<mapsto> \<lparr>count = \<lparr>ecount = 0, rcount = 1\<rparr>, ptr = 7,
                                             pool = 0, next_ref = 0\<rparr>,
                                      2 \<mapsto> \<lparr>count = \<lparr>ecount = 1, rcount = 0\<rparr>, ptr = 8,
                                             pool = 0, next_ref = 0\<rparr>),
                locals = [Some \<lparr>refptr = 2\<rparr>],
                atomics = [Some \<lparr>xxx = \<lparr>ref_ecount = 0, ref_ptr = 1\<rparr>\<rparr>],
                trace = [], pooled = {}\<rparr> =
     Some (Inr \<lparr>blocks = (\<lambda>a. None)(1 \<mapsto> \<lparr>count = \<lparr>ecount = 0, rcount = 1\<rparr>, ptr = 7,
                                             pool = 0, next_ref = 0\<rparr>,
                                      2 \<mapsto> \<lparr>count = \<lparr>ecount = 1, rcount = 0\<rparr>, ptr = 8,
                                             pool = 0, next_ref = 0\<rparr>),
                locals = [Some \<lparr>refptr = 2\<rparr>, None],
                atomics = [Some \<lparr>xxx = \<lparr>ref_ecount = 0, ref_ptr = 1\<rparr>\<rparr>],
                trace = [], pooled = {}\<rparr>)"
proof -
  have r: "run [AtomicObj 1 7, LocalObj 2 8] world0 =
     Some (Inr \<lparr>blocks = (\<lambda>a. None)(1 \<mapsto> \<lparr>count = \<lparr>ecount = 0, rcount = 1\<rparr>, ptr = 7,
                                             pool = 0, next_ref = 0\<rparr>,
                                      2 \<mapsto> \<lparr>count = \<lparr>ecount = 1, rcount = 0\<rparr>, ptr = 8,
                                             pool = 0, next_ref = 0\<rparr>),
                locals = [Some \<lparr>refptr = 2\<rparr>],
                atomics = [Some \<lparr>xxx = \<lparr>ref_ecount = 0, ref_ptr = 1\<rparr>\<rparr>],
                trace = [], pooled = {}\<rparr>)"
    by (simp add: step_eval)
  have l: "length (locals \<lparr>blocks = (\<lambda>a. None)(1 \<mapsto> \<lparr>count = \<lparr>ecount = 0, rcount = 1\<rparr>, ptr = 7,
                                             pool = 0, next_ref = 0\<rparr>,
                                      2 \<mapsto> \<lparr>count = \<lparr>ecount = 1, rcount = 0\<rparr>, ptr = 8,
                                             pool = 0, next_ref = 0\<rparr>),
                locals = [Some \<lparr>refptr = 2\<rparr>],
                atomics = [Some \<lparr>xxx = \<lparr>ref_ecount = 0, ref_ptr = 1\<rparr>\<rparr>],
                trace = [], pooled = {}\<rparr>) = 1"
    by simp
  from pin_release_keeps_sums_copy_release_keeps_all
    [OF r, where j = 0 and s = "\<lparr>xxx = \<lparr>ref_ecount = 0, ref_ptr = 1\<rparr>\<rparr>" and i = 0
       and p = "\<lparr>refptr = 2\<rparr>"]
  show ?thesis
    unfolding l using r by (simp add: atomic_at_def local_at_def fun_upd_twist)
qed

text \<open>
  C9 as stated fails.  A slot with the ephemeral count 0 on a block with the pair (0,1) is
  pinned and the pin released: the slot is left with the ephemeral count 1 and the block
  with the pair (-1,1).
\<close>

theorem pin_release_restores_counters_counterexample:
  "local_ptr_atomic \<lparr>xxx = \<lparr>ref_ecount = 0, ref_ptr = 1\<rparr>\<rparr> [] =
     (\<lparr>xxx = \<lparr>ref_ecount = 1, ref_ptr = 1\<rparr>\<rparr>, \<lparr>refptr = 1\<rparr>) \<and>
   local_ptr_dtor \<lparr>refptr = 1\<rparr> []
     ((\<lambda>a. None)(1 \<mapsto> \<lparr>count = \<lparr>ecount = 0, rcount = 1\<rparr>, ptr = 7, pool = 0, next_ref = 0\<rparr>)) =
     Inr ((\<lambda>a. None)(1 \<mapsto> \<lparr>count = \<lparr>ecount = - 1, rcount = 1\<rparr>, ptr = 7, pool = 0, next_ref = 0\<rparr>),
          [])"
  by (simp add: local_ptr_atomic_def getrefptr_nil local_ptr_dtor_def adjust_nil deref_def)

subsection \<open>C10\<close>

text \<open>
  C10.  \<open>setPool\<close> and \<open>getPool\<close> go through \<open>refptr\<close> with no check: on every
  empty \<open>local_ptr\<close> both dereference the null pointer.  On a \<open>local_ptr\<close> that holds an
  allocated block, \<open>setPool\<close> stores the hook in the block and nothing else changes,
  and \<open>getPool\<close> returns the hook the block holds: the one \<open>setPool\<close> stored last, as
  neither \<open>adjust\<close> nor the constructors from a recycled block change it, or null on a
  block a constructor has just allocated.  In a program, a step leaves the hook of every
  block that stays allocated as it was, but for \<open>setPool\<close> on a \<open>local_ptr\<close> that
  holds the block, which makes it the hook given; a block the step allocates has the null
  hook.
\<close>

theorem pool_access_requires_nonempty_handle:
  "(refptr this = 0 \<longrightarrow>
      setPool this p h = Inl NullDeref \<and> getPool this h = Inl NullDeref) \<and>
   (deref h (refptr this) = Inr b \<longrightarrow>
      setPool this p h = Inr (h(refptr this \<mapsto> b\<lparr>pool := p\<rparr>)) \<and>
      getPool this (h(refptr this \<mapsto> b\<lparr>pool := p\<rparr>)) = Inr p \<and>
      getPool this h = Inr (pool b)) \<and>
   (obj \<noteq> 0 \<and> a \<noteq> 0 \<longrightarrow>
      getPool (snd (local_ptr_obj a obj h)) (fst (local_ptr_obj a obj h)) = Inr 0) \<and>
   (adjust a' xe xr env h = Inr (h', rc) \<longrightarrow> getPool this h' = getPool this h) \<and>
   (local_ptr_recycled src h = Inr (h', q) \<longrightarrow> getPool this h' = getPool this h) \<and>
   (atomic_ptr_recycled src h = Inr (h', q') \<longrightarrow> getPool this h' = getPool this h) \<and>
   (step o' w = Some (Inr w') \<and> blocks w' x = Some bx' \<longrightarrow>
      pool bx' =
        (case blocks w x of
           None \<Rightarrow> 0
         | Some bx \<Rightarrow>
             (case o' of
                SetPool i p' \<Rightarrow> if map_option refptr (local_at w i) = Some x then p' else pool bx
              | _ \<Rightarrow> pool bx)))"
proof (intro conjI impI)
  assume "refptr this = 0"
  then show "setPool this p h = Inl NullDeref" by (simp add: setPool_def deref_def)
next
  assume "refptr this = 0"
  then show "getPool this h = Inl NullDeref" by (simp add: getPool_def deref_def)
next
  assume d: "deref h (refptr this) = Inr b"
  then show "setPool this p h = Inr (h(refptr this \<mapsto> b\<lparr>pool := p\<rparr>))"
    by (simp add: setPool_def)
  from d show "getPool this (h(refptr this \<mapsto> b\<lparr>pool := p\<rparr>)) = Inr p"
    by (simp add: getPool_def deref_def split: if_splits)
  from d show "getPool this h = Inr (pool b)" by (simp add: getPool_def)
next
  assume "obj \<noteq> 0 \<and> a \<noteq> 0"
  then show "getPool (snd (local_ptr_obj a obj h)) (fst (local_ptr_obj a obj h)) = Inr 0"
    by (simp add: local_ptr_obj_def getPool_def deref_def atomic_ptr_ref_ctor_def Let_def)
next
  assume "adjust a' xe xr env h = Inr (h', rc)"
  then show "getPool this h' = getPool this h" by (rule adjust_pool_frame)
next
  assume "local_ptr_recycled src h = Inr (h', q)"
  then show "getPool this h' = getPool this h"
    by (auto simp: local_ptr_recycled_def getPool_def deref_def Let_def
        split: if_splits option.splits)
next
  assume "atomic_ptr_recycled src h = Inr (h', q')"
  then show "getPool this h' = getPool this h"
    by (auto simp: atomic_ptr_recycled_def getPool_def deref_def Let_def
        split: if_splits option.splits)
next
  assume "step o' w = Some (Inr w') \<and> blocks w' x = Some bx'"
  then have "step o' w = Some (Inr w')" "blocks w' x = Some bx'" by simp_all
  then show "pool bx' =
        (case blocks w x of
           None \<Rightarrow> 0
         | Some bx \<Rightarrow>
             (case o' of
                SetPool i p' \<Rightarrow> if map_option refptr (local_at w i) = Some x then p' else pool bx
              | _ \<Rightarrow> pool bx))"
    by (rule step_pool)
qed

theorem pool_access_requires_nonempty_handle_witness:
  "setPool \<lparr>refptr = 0\<rparr> 9 (\<lambda>a. None) = Inl NullDeref \<and>
   getPool \<lparr>refptr = 0\<rparr> (\<lambda>a. None) = Inl NullDeref \<and>
   setPool \<lparr>refptr = 1\<rparr> 9
     ((\<lambda>a. None)(1 \<mapsto> \<lparr>count = \<lparr>ecount = 1, rcount = 0\<rparr>, ptr = 7, pool = 0, next_ref = 0\<rparr>)) =
     Inr ((\<lambda>a. None)(1 \<mapsto> \<lparr>count = \<lparr>ecount = 1, rcount = 0\<rparr>, ptr = 7, pool = 9, next_ref = 0\<rparr>)) \<and>
   getPool \<lparr>refptr = 1\<rparr>
     ((\<lambda>a. None)(1 \<mapsto> \<lparr>count = \<lparr>ecount = 1, rcount = 0\<rparr>, ptr = 7, pool = 9, next_ref = 0\<rparr>)) = Inr 9 \<and>
   getPool (snd (local_ptr_obj 1 7 (\<lambda>a. None))) (fst (local_ptr_obj 1 7 (\<lambda>a. None))) = Inr 0 \<and>
   adjust 1 1 0 []
     ((\<lambda>a. None)(1 \<mapsto> \<lparr>count = \<lparr>ecount = 1, rcount = 0\<rparr>, ptr = 7, pool = 9, next_ref = 0\<rparr>)) =
     Inr ((\<lambda>a. None)(1 \<mapsto> \<lparr>count = \<lparr>ecount = 2, rcount = 0\<rparr>, ptr = 7, pool = 9, next_ref = 0\<rparr>), 1) \<and>
   getPool \<lparr>refptr = 1\<rparr>
     ((\<lambda>a. None)(1 \<mapsto> \<lparr>count = \<lparr>ecount = 2, rcount = 0\<rparr>, ptr = 7, pool = 9, next_ref = 0\<rparr>)) = Inr 9 \<and>
   local_ptr_recycled 1
     ((\<lambda>a. None)(1 \<mapsto> \<lparr>count = \<lparr>ecount = 0, rcount = 0\<rparr>, ptr = 7, pool = 9, next_ref = 0\<rparr>)) =
     Inr ((\<lambda>a. None)(1 \<mapsto> \<lparr>count = \<lparr>ecount = 1, rcount = 0\<rparr>, ptr = 7, pool = 9, next_ref = 0\<rparr>),
          \<lparr>refptr = 1\<rparr>) \<and>
   atomic_ptr_recycled 1
     ((\<lambda>a. None)(1 \<mapsto> \<lparr>count = \<lparr>ecount = 0, rcount = 0\<rparr>, ptr = 7, pool = 9, next_ref = 0\<rparr>)) =
     Inr ((\<lambda>a. None)(1 \<mapsto> \<lparr>count = \<lparr>ecount = 0, rcount = 1\<rparr>, ptr = 7, pool = 9, next_ref = 0\<rparr>),
          \<lparr>xxx = \<lparr>ref_ecount = 0, ref_ptr = 1\<rparr>\<rparr>) \<and>
   step (SetPool 0 9)
     \<lparr>blocks = (\<lambda>a. None)(1 \<mapsto> \<lparr>count = \<lparr>ecount = 1, rcount = 0\<rparr>, ptr = 7,
                                 pool = 0, next_ref = 0\<rparr>),
      locals = [Some \<lparr>refptr = 1\<rparr>], atomics = [], trace = [], pooled = {}\<rparr> =
     Some (Inr \<lparr>blocks = (\<lambda>a. None)(1 \<mapsto> \<lparr>count = \<lparr>ecount = 1, rcount = 0\<rparr>, ptr = 7,
                                             pool = 9, next_ref = 0\<rparr>),
                locals = [Some \<lparr>refptr = 1\<rparr>], atomics = [], trace = [], pooled = {}\<rparr>)"
proof -
  have 1: "setPool \<lparr>refptr = 0\<rparr> 9 (\<lambda>a. None) = Inl NullDeref \<and>
      getPool \<lparr>refptr = 0\<rparr> (\<lambda>a. None) = Inl NullDeref"
    using pool_access_requires_nonempty_handle
      [where this = "\<lparr>refptr = 0\<rparr>" and p = 9 and h = "\<lambda>a. None"]
    by simp
  have 2: "setPool \<lparr>refptr = 1\<rparr> 9
     ((\<lambda>a. None)(1 \<mapsto> \<lparr>count = \<lparr>ecount = 1, rcount = 0\<rparr>, ptr = 7, pool = 0, next_ref = 0\<rparr>)) =
     Inr ((\<lambda>a. None)(1 \<mapsto> \<lparr>count = \<lparr>ecount = 1, rcount = 0\<rparr>, ptr = 7, pool = 9, next_ref = 0\<rparr>)) \<and>
   getPool \<lparr>refptr = 1\<rparr>
     ((\<lambda>a. None)(1 \<mapsto> \<lparr>count = \<lparr>ecount = 1, rcount = 0\<rparr>, ptr = 7, pool = 9, next_ref = 0\<rparr>)) = Inr 9 \<and>
   getPool (snd (local_ptr_obj 1 7 (\<lambda>a. None))) (fst (local_ptr_obj 1 7 (\<lambda>a. None))) = Inr 0"
    using pool_access_requires_nonempty_handle
      [where this = "\<lparr>refptr = 1\<rparr>" and p = 9 and obj = 7 and a = 1
         and h = "(\<lambda>a. None)(1 \<mapsto> \<lparr>count = \<lparr>ecount = 1, rcount = 0\<rparr>, ptr = 7, pool = 0, next_ref = 0\<rparr>)"
         and b = "\<lparr>count = \<lparr>ecount = 1, rcount = 0\<rparr>, ptr = 7, pool = 0, next_ref = 0\<rparr>"]
    by (simp add: deref_def local_ptr_obj_def atomic_ptr_ref_ctor_def getPool_def Let_def)
  have 3: "adjust 1 1 0 []
     ((\<lambda>a. None)(1 \<mapsto> \<lparr>count = \<lparr>ecount = 1, rcount = 0\<rparr>, ptr = 7, pool = 9, next_ref = 0\<rparr>)) =
     Inr ((\<lambda>a. None)(1 \<mapsto> \<lparr>count = \<lparr>ecount = 2, rcount = 0\<rparr>, ptr = 7, pool = 9, next_ref = 0\<rparr>), 1)"
    by (simp add: adjust_nil deref_def)
  have 4: "getPool \<lparr>refptr = 1\<rparr>
     ((\<lambda>a. None)(1 \<mapsto> \<lparr>count = \<lparr>ecount = 2, rcount = 0\<rparr>, ptr = 7, pool = 9, next_ref = 0\<rparr>)) = Inr 9"
    using 3 pool_access_requires_nonempty_handle
      [where this = "\<lparr>refptr = 1\<rparr>" and a' = 1 and xe = 1 and xr = 0 and env = "[]" and rc = 1
         and h = "(\<lambda>a. None)(1 \<mapsto> \<lparr>count = \<lparr>ecount = 1, rcount = 0\<rparr>, ptr = 7, pool = 9, next_ref = 0\<rparr>)"
         and h' = "(\<lambda>a. None)(1 \<mapsto> \<lparr>count = \<lparr>ecount = 2, rcount = 0\<rparr>, ptr = 7, pool = 9, next_ref = 0\<rparr>)"]
    by (simp add: getPool_def deref_def)
  have 5: "local_ptr_recycled 1
     ((\<lambda>a. None)(1 \<mapsto> \<lparr>count = \<lparr>ecount = 0, rcount = 0\<rparr>, ptr = 7, pool = 9, next_ref = 0\<rparr>)) =
     Inr ((\<lambda>a. None)(1 \<mapsto> \<lparr>count = \<lparr>ecount = 1, rcount = 0\<rparr>, ptr = 7, pool = 9, next_ref = 0\<rparr>),
          \<lparr>refptr = 1\<rparr>) \<and>
   atomic_ptr_recycled 1
     ((\<lambda>a. None)(1 \<mapsto> \<lparr>count = \<lparr>ecount = 0, rcount = 0\<rparr>, ptr = 7, pool = 9, next_ref = 0\<rparr>)) =
     Inr ((\<lambda>a. None)(1 \<mapsto> \<lparr>count = \<lparr>ecount = 0, rcount = 1\<rparr>, ptr = 7, pool = 9, next_ref = 0\<rparr>),
          \<lparr>xxx = \<lparr>ref_ecount = 0, ref_ptr = 1\<rparr>\<rparr>)"
    by (simp add: local_ptr_recycled_def atomic_ptr_recycled_def deref_def Let_def)
  have 6: "step (SetPool 0 9)
     \<lparr>blocks = (\<lambda>a. None)(1 \<mapsto> \<lparr>count = \<lparr>ecount = 1, rcount = 0\<rparr>, ptr = 7,
                                 pool = 0, next_ref = 0\<rparr>),
      locals = [Some \<lparr>refptr = 1\<rparr>], atomics = [], trace = [], pooled = {}\<rparr> =
     Some (Inr \<lparr>blocks = (\<lambda>a. None)(1 \<mapsto> \<lparr>count = \<lparr>ecount = 1, rcount = 0\<rparr>, ptr = 7,
                                             pool = 9, next_ref = 0\<rparr>),
                locals = [Some \<lparr>refptr = 1\<rparr>], atomics = [], trace = [], pooled = {}\<rparr>)"
    by (simp add: step_eval)
  from 1 2 3 4 5 6 show ?thesis by simp
qed

end
